theory Spec2Isabelle
  imports Main
begin

section \<open>Strings\<close>

text \<open>
  A JavaScript string is a sequence of UTF-16 code units. A code unit is modelled by its
  number, so a string is a list of naturals (\<open>length\<close> is the \<open>.length\<close> of the source);
  the theorems below hold for every list, in particular for every list of code units.
  \<open>js\<close> writes an ASCII literal of the source as such a list.
\<close>

type_synonym jstring = "nat list"

definition js :: "string \<Rightarrow> jstring" where
  "js s = map of_char s"

text \<open>
  The characters \<open>\s\<close> of a regular expression and \<open>String.prototype.trim\<close> strip:
  WhiteSpace and LineTerminator of ECMAScript (TAB, LF, VT, FF, CR, SP, NBSP, U+1680,
  U+2000..U+200A, U+2028, U+2029, U+202F, U+205F, U+3000, U+FEFF).
\<close>

definition is_space :: "nat \<Rightarrow> bool" where
  "is_space c = (c \<in> set [9, 10, 11, 12, 13, 32, 160, 5760, 8232, 8233, 8239, 8287, 12288, 65279]
                 \<or> (8192 \<le> c \<and> c \<le> 8202))"

text \<open>
  Matching one pattern character under the \<open>i\<close> flag (without \<open>u\<close>): both sides are
  canonicalised with \<open>toUpperCase\<close>, and a code unit of 128 or more never canonicalises
  to one below 128. The pattern characters of the source are ASCII, so an ASCII letter of
  a pattern matches exactly its two cases and every other pattern character only itself.
\<close>

definition to_upper :: "nat \<Rightarrow> nat" where
  "to_upper c = (if 97 \<le> c \<and> c \<le> 122 then c - 32 else c)"

definition ci_eq :: "nat \<Rightarrow> nat \<Rightarrow> bool" where
  "ci_eq p c = (c < 128 \<and> to_upper c = to_upper p)"

section \<open>The regular expressions of the source\<close>

text \<open>
  The source uses only literal characters, \<open>\s+\<close>, \<open>[.,\s]+\<close>, the anchors \<open>^\<close> and
  \<open>$\<close> and alternation. A pattern is a list of alternatives, an alternative a list of atoms.
\<close>

datatype cclass = Space | PunctSpace

datatype atom = Lit nat | Plus cclass | Bol | Eol

type_synonym regex = "atom list list"

fun in_class :: "cclass \<Rightarrow> nat \<Rightarrow> bool" where
  "in_class Space c = is_space c"
| "in_class PunctSpace c = (c = 46 \<or> c = 44 \<or> is_space c)"

text \<open>
  \<open>match_seq p b s\<close> matches the atoms \<open>p\<close> at the head of \<open>s\<close>, as the backtracking
  matcher of ECMAScript does, and returns what follows the match; \<open>b\<close> says whether the
  head of \<open>s\<close> is index 0 of the subject. \<open>+\<close> is greedy: it first tries to take one more
  character and gives it back only if the rest of the pattern then fails.
\<close>

fun match_seq :: "atom list \<Rightarrow> bool \<Rightarrow> jstring \<Rightarrow> jstring option" where
  "match_seq [] b s = Some s"
| "match_seq (Lit c # p) b [] = None"
| "match_seq (Lit c # p) b (x # xs) = (if ci_eq c x then match_seq p False xs else None)"
| "match_seq (Bol # p) b s = (if b then match_seq p b s else None)"
| "match_seq (Eol # p) b s = (if s = [] then match_seq p b s else None)"
| "match_seq (Plus k # p) b [] = None"
| "match_seq (Plus k # p) b (x # xs) =
     (if in_class k x
      then (case match_seq (Plus k # p) False xs of
              Some r \<Rightarrow> Some r
            | None \<Rightarrow> match_seq p False xs)
      else None)"

fun match_alts :: "regex \<Rightarrow> bool \<Rightarrow> jstring \<Rightarrow> jstring option" where
  "match_alts [] b s = None"
| "match_alts (p # ps) b s =
     (case match_seq p b s of Some r \<Rightarrow> Some r | None \<Rightarrow> match_alts ps b s)"

text \<open>
  \<open>subject.replace(/re/g, rep)\<close> with a replacement string free of \<open>$\<close>: scan from the
  left; at a match, emit \<open>rep\<close> and go on behind the match; elsewhere copy one code unit.
  After an empty match the scan advances by one code unit.
\<close>

function replace_from :: "regex \<Rightarrow> jstring \<Rightarrow> bool \<Rightarrow> jstring \<Rightarrow> jstring" where
  "replace_from re rep b s =
     (case match_alts re b s of
        Some rest \<Rightarrow>
          if length rest < length s then rep @ replace_from re rep False rest
          else (case s of [] \<Rightarrow> rep | x # xs \<Rightarrow> rep @ x # replace_from re rep False xs)
      | None \<Rightarrow> (case s of [] \<Rightarrow> [] | x # xs \<Rightarrow> x # replace_from re rep False xs))"
  by pat_completeness auto
termination
  by (relation "measure (\<lambda>(re, rep, b, s). length s)") auto

declare replace_from.simps [simp del]

definition replace_all :: "regex \<Rightarrow> jstring \<Rightarrow> jstring \<Rightarrow> jstring" where
  "replace_all re rep s = replace_from re rep True s"

definition trim :: "jstring \<Rightarrow> jstring" where
  "trim s = rev (dropWhile is_space (rev (dropWhile is_space s)))"

section \<open>The response sanitizer\<close>

definition lits :: "string \<Rightarrow> atom list" where
  "lits s = map (\<lambda>c. Lit (of_char c)) s"

text \<open>The ten artifact patterns, each with the flags \<open>gi\<close>.\<close>

definition artifacts :: "regex list" where
  "artifacts =
     [ [lits ''analysis''],
       [lits ''assistantfinal''],
       [lits ''user'' @ [Plus Space] @ lits ''wrote:''],
       [lits ''they'' @ [Plus Space] @ lits ''are'' @ [Plus Space] @ lits ''asking''],
       [lits ''so'' @ [Plus Space] @ lits ''count:''],
       [lits ''so'' @ [Plus Space] @ lits ''answer:''],
       [lits ''probably'' @ [Plus Space] @ lits ''the'' @ [Plus Space] @ lits ''assistant''
          @ [Plus Space] @ lits ''should''],
       [lits ''but'' @ [Plus Space] @ lits ''maybe'' @ [Plus Space] @ lits ''the''
          @ [Plus Space] @ lits ''user'' @ [Plus Space] @ lits ''expects''],
       [lits ''just'' @ [Plus Space] @ lits ''answer:''],
       [lits ''short.''] ]"

text \<open>\<open>/^[.,\s]+|[.,\s]+$/g\<close>\<close>

definition edge_punct :: regex where
  "edge_punct = [[Bol, Plus PunctSpace], [Plus PunctSpace, Eol]]"

definition strip_artifacts :: "jstring \<Rightarrow> jstring" where
  "strip_artifacts s = foldl (\<lambda>cleaned pattern. replace_all pattern [] cleaned) s artifacts"

text \<open>
  The cleaned form of a response: artifacts removed, runs of white space collapsed to one
  space, the ends trimmed and stripped of \<open>.\<close>, \<open>,\<close> and white space.
\<close>

definition cleaned_form :: "jstring \<Rightarrow> jstring" where
  "cleaned_form response =
     (let cleaned = strip_artifacts response;
          cleaned = trim (replace_all [[Plus Space]] (js '' '') cleaned);
          cleaned = replace_all edge_punct [] cleaned
      in cleaned)"

text \<open>\<open>cleanModelResponse(response)\<close>, with its quality gate at 10 code units.\<close>

definition cleanModelResponse :: "jstring \<Rightarrow> jstring" where
  "cleanModelResponse response =
     (if response = [] then response
      else let cleaned = cleaned_form response
           in if length cleaned < 10 then response else cleaned)"

text \<open>
  A pattern occurs in a string when it matches at some index of it; a string has an
  artifact when one of the ten patterns occurs in it.
\<close>

fun occurs :: "regex \<Rightarrow> bool \<Rightarrow> jstring \<Rightarrow> bool" where
  "occurs re b [] = (match_alts re b [] \<noteq> None)"
| "occurs re b (x # xs) = (match_alts re b (x # xs) \<noteq> None \<or> occurs re False xs)"

definition has_artifact :: "jstring \<Rightarrow> bool" where
  "has_artifact s = list_ex (\<lambda>pattern. occurs pattern True s) artifacts"

section \<open>JSON values and \<open>JSON.parse\<close>\<close>

text \<open>
  The value \<open>JSON.parse\<close> returns. A number is kept as its literal denotes it,
  \<open>(-1)^neg * mantissa * 10^exponent\<close>; the source only tests a number for truthiness.
  An object keeps its members in the order of the text; a repeated key takes its last value.
\<close>

datatype json =
    JNull
  | JBool bool
  | JNum bool nat int
  | JStr jstring
  | JArr "json list"
  | JObj "(jstring \<times> json) list"

definition is_digit :: "nat \<Rightarrow> bool" where
  "is_digit c = (48 \<le> c \<and> c \<le> 57)"

definition json_ws :: "nat \<Rightarrow> bool" where
  "json_ws c = (c = 32 \<or> c = 9 \<or> c = 10 \<or> c = 13)"

definition skip_ws :: "jstring \<Rightarrow> jstring" where
  "skip_ws s = dropWhile json_ws s"

definition hex_val :: "nat \<Rightarrow> nat option" where
  "hex_val c =
     (if 48 \<le> c \<and> c \<le> 57 then Some (c - 48)
      else if 65 \<le> c \<and> c \<le> 70 then Some (c - 55)
      else if 97 \<le> c \<and> c \<le> 102 then Some (c - 87)
      else None)"

definition hex4 :: "nat \<Rightarrow> nat \<Rightarrow> nat \<Rightarrow> nat \<Rightarrow> nat option" where
  "hex4 a b c d =
     (case (hex_val a, hex_val b, hex_val c, hex_val d) of
        (Some h1, Some h2, Some h3, Some h4) \<Rightarrow> Some (((h1 * 16 + h2) * 16 + h3) * 16 + h4)
      | _ \<Rightarrow> None)"

text \<open>The escapes \<open>\" \\ \/ \b \f \n \r \t\<close>, by the character behind the backslash.\<close>

definition unescape :: "nat \<Rightarrow> nat option" where
  "unescape e =
     (if e = 34 \<or> e = 92 \<or> e = 47 then Some e
      else if e = 98 then Some 8
      else if e = 102 then Some 12
      else if e = 110 then Some 10
      else if e = 114 then Some 13
      else if e = 116 then Some 9
      else None)"

definition push :: "nat \<Rightarrow> (jstring \<times> jstring) option \<Rightarrow> (jstring \<times> jstring) option" where
  "push c r = (case r of None \<Rightarrow> None | Some (cs, rest) \<Rightarrow> Some (c # cs, rest))"

text \<open>
  The characters of a string literal, read from behind its opening quote up to the closing
  one: 34 is the quote, 92 the backslash, 117 the \<open>u\<close> of a four-digit escape; a control
  character below 32 is a syntax error.
\<close>

fun parse_chars :: "jstring \<Rightarrow> (jstring \<times> jstring) option" where
  "parse_chars [] = None"
| "parse_chars (c # s) =
     (if c = 34 then Some ([], s)
      else if c = 92 then
        (case s of
           [] \<Rightarrow> None
         | e # s1 \<Rightarrow>
             if e = 117 then
               (case s1 of
                  a # b # c # d # s2 \<Rightarrow>
                    (case hex4 a b c d of
                       None \<Rightarrow> None
                     | Some u \<Rightarrow> push u (parse_chars s2))
                | _ \<Rightarrow> None)
             else
               (case unescape e of
                  None \<Rightarrow> None
                | Some u \<Rightarrow> push u (parse_chars s1)))
      else if c < 32 then None
      else push c (parse_chars s))"

definition digits_val :: "jstring \<Rightarrow> nat" where
  "digits_val ds = foldl (\<lambda>n d. 10 * n + (d - 48)) 0 ds"

text \<open>
  A number literal: an optional minus sign (45), the integer part (a single 0, or digits
  not starting with 0), an optional fraction (46 is the point) and an optional exponent
  (101 and 69 are \<open>e\<close> and \<open>E\<close>, 43 the plus sign).
\<close>

definition parse_number :: "jstring \<Rightarrow> (json \<times> jstring) option" where
  "parse_number s =
     (let neg = (case s of [] \<Rightarrow> False | c # _ \<Rightarrow> c = 45);
          s1 = (if neg then tl s else s);
          ip = (case s1 of [] \<Rightarrow> [] | c # _ \<Rightarrow> if c = 48 then [c] else takeWhile is_digit s1);
          s2 = drop (length ip) s1;
          has_frac = (case s2 of [] \<Rightarrow> False | c # _ \<Rightarrow> c = 46);
          fp = (if has_frac then takeWhile is_digit (tl s2) else []);
          s3 = (if has_frac then drop (length fp) (tl s2) else s2);
          has_exp = (case s3 of [] \<Rightarrow> False | c # _ \<Rightarrow> c = 101 \<or> c = 69);
          s4 = (if has_exp then tl s3 else s3);
          eneg = (has_exp \<and> (case s4 of [] \<Rightarrow> False | c # _ \<Rightarrow> c = 45));
          s5 = (if has_exp \<and> (case s4 of [] \<Rightarrow> False | c # _ \<Rightarrow> c = 45 \<or> c = 43)
                then tl s4 else s4);
          ep = (if has_exp then takeWhile is_digit s5 else []);
          s6 = drop (length ep) s5;
          e = (if eneg then - int (digits_val ep) else int (digits_val ep))
      in if ip = [] \<or> (has_frac \<and> fp = []) \<or> (has_exp \<and> ep = []) then None
         else Some (JNum neg (digits_val (ip @ fp)) (e - int (length fp)), s6))"

definition starts_with :: "jstring \<Rightarrow> jstring \<Rightarrow> bool" where
  "starts_with s p = (take (length p) s = p)"

definition parse_word :: "jstring \<Rightarrow> (json \<times> jstring) option" where
  "parse_word s =
     (if starts_with s (js ''true'') then Some (JBool True, drop 4 s)
      else if starts_with s (js ''false'') then Some (JBool False, drop 5 s)
      else if starts_with s (js ''null'') then Some (JNull, drop 4 s)
      else None)"

lemma parse_chars_shorter: "parse_chars s = Some (k, r) \<Longrightarrow> length r < length s"
proof (induction s arbitrary: k r rule: parse_chars.induct)
  case 1
  then show ?case by simp
next
  case (2 c s)
  then show ?case
    by (fastforce simp: push_def split: if_splits list.splits option.splits prod.splits)
qed

lemma skip_ws_le: "length (skip_ws s) \<le> length s"
  by (simp add: skip_ws_def length_dropWhile_le)

text \<open>
  The recursive descent over values, array elements and object members; each returns what
  it read and the text behind it, \<open>None\<close> is the SyntaxError. 123 and 125 are the braces,
  91 and 93 the brackets, 44 the comma, 58 the colon. The tests \<open>length r < length s\<close>
  never fail (\<open>parse_value_shorter\<close> below); they make the recursion visibly terminate.
\<close>

function parse_value :: "jstring \<Rightarrow> (json \<times> jstring) option"
  and parse_elements :: "jstring \<Rightarrow> (json list \<times> jstring) option"
  and parse_members :: "jstring \<Rightarrow> ((jstring \<times> json) list \<times> jstring) option"
where
  "parse_value s =
     (case skip_ws s of
        [] \<Rightarrow> None
      | c # r \<Rightarrow>
          if c = 123 then
            (case skip_ws r of
               [] \<Rightarrow> None
             | d # r1 \<Rightarrow>
                 if d = 125 then Some (JObj [], r1)
                 else (case parse_members r of
                         None \<Rightarrow> None
                       | Some (kvs, r2) \<Rightarrow> Some (JObj kvs, r2)))
          else if c = 91 then
            (case skip_ws r of
               [] \<Rightarrow> None
             | d # r1 \<Rightarrow>
                 if d = 93 then Some (JArr [], r1)
                 else (case parse_elements r of
                         None \<Rightarrow> None
                       | Some (vs, r2) \<Rightarrow> Some (JArr vs, r2)))
          else if c = 34 then
            (case parse_chars r of
               None \<Rightarrow> None
             | Some (cs, r1) \<Rightarrow> Some (JStr cs, r1))
          else if c = 45 \<or> is_digit c then parse_number (c # r)
          else parse_word (c # r))"
| "parse_elements s =
     (case parse_value s of
        None \<Rightarrow> None
      | Some (v, r) \<Rightarrow>
          if length r < length s then
            (case skip_ws r of
               [] \<Rightarrow> None
             | c # r1 \<Rightarrow>
                 if c = 44 then
                   (case parse_elements r1 of
                      None \<Rightarrow> None
                    | Some (vs, r2) \<Rightarrow> Some (v # vs, r2))
                 else if c = 93 then Some ([v], r1)
                 else None)
          else None)"
| "parse_members s =
     (case skip_ws s of
        [] \<Rightarrow> None
      | q # r \<Rightarrow>
          if q = 34 then
            (case parse_chars r of
               None \<Rightarrow> None
             | Some (k, r1) \<Rightarrow>
                 (case skip_ws r1 of
                    [] \<Rightarrow> None
                  | c # r2 \<Rightarrow>
                      if c = 58 then
                        (case parse_value r2 of
                           None \<Rightarrow> None
                         | Some (v, r3) \<Rightarrow>
                             if length r3 < length r2 then
                               (case skip_ws r3 of
                                  [] \<Rightarrow> None
                                | d # r4 \<Rightarrow>
                                    if d = 44 then
                                      (case parse_members r4 of
                                         None \<Rightarrow> None
                                       | Some (kvs, r5) \<Rightarrow> Some ((k, v) # kvs, r5))
                                    else if d = 125 then Some ([(k, v)], r4)
                                    else None)
                             else None)
                      else None))
          else None)"
  by pat_completeness auto
termination
proof (relation "measure (\<lambda>x. case x of
                     Inl s \<Rightarrow> 2 * length s
                   | Inr (Inl s) \<Rightarrow> 2 * length s + 1
                   | Inr (Inr s) \<Rightarrow> 2 * length s + 1)", goal_cases)
  case 1
  show ?case by simp
next
  case (2 s c r d r1)
  then show ?case using skip_ws_le [of s] by simp
next
  case (3 s c r d r1)
  then show ?case using skip_ws_le [of s] by simp
next
  case (4 s)
  show ?case by simp
next
  case (5 s x v r c r1)
  then show ?case using skip_ws_le [of r] by simp
next
  case (6 s q r x k r1 c r2)
  then show ?case
    using skip_ws_le [of s] skip_ws_le [of r1] parse_chars_shorter [of r k r1] by simp
next
  case (7 s q r x k r1 c r2 y v r3 d r4)
  then show ?case
    using skip_ws_le [of s] skip_ws_le [of r1] skip_ws_le [of r3]
      parse_chars_shorter [of r k r1] by simp
qed

text \<open>\<open>JSON.parse(text)\<close>: one value with nothing but white space around it.\<close>

definition JSON_parse :: "jstring \<Rightarrow> json option" where
  "JSON_parse text =
     (case parse_value text of
        None \<Rightarrow> None
      | Some (v, rest) \<Rightarrow> if skip_ws rest = [] then Some v else None)"

section \<open>The JavaScript operations of the router\<close>

datatype error = UpstreamFailure | TypeError | SyntaxError

text \<open>
  A number literal reads as zero exactly when its value is at most \<open>2^-1075\<close>, half the
  least positive double (round to nearest, ties to even).
\<close>

definition reads_as_zero :: "nat \<Rightarrow> int \<Rightarrow> bool" where
  "reads_as_zero m e = (m = 0 \<or> (e < 0 \<and> m * 2 ^ 1075 \<le> 10 ^ nat (- e)))"

fun truthy :: "json \<Rightarrow> bool" where
  "truthy JNull = False"
| "truthy (JBool b) = b"
| "truthy (JNum neg m e) = (\<not> reads_as_zero m e)"
| "truthy (JStr s) = (s \<noteq> [])"
| "truthy (JArr vs) = True"
| "truthy (JObj kvs) = True"

text \<open>
  \<open>value.name\<close> for a name that no prototype defines, as \<open>model\<close> and \<open>reasoning\<close> are:
  a TypeError on \<open>null\<close>, the member of an object (\<open>None\<close> is \<open>undefined\<close>), and
  \<open>undefined\<close> on every other value.
\<close>

fun get_prop :: "json \<Rightarrow> jstring \<Rightarrow> error + json option" where
  "get_prop JNull name = Inl TypeError"
| "get_prop (JObj kvs) name = Inr (map_of (rev kvs) name)"
| "get_prop (JBool b) name = Inr None"
| "get_prop (JNum neg m e) name = Inr None"
| "get_prop (JStr s) name = Inr None"
| "get_prop (JArr vs) name = Inr None"

text \<open>\<open>v || d\<close> for a value \<open>v\<close> that may be \<open>undefined\<close>.\<close>

definition or_else :: "json option \<Rightarrow> json \<Rightarrow> json" where
  "or_else v d = (case v of None \<Rightarrow> d | Some x \<Rightarrow> if truthy x then x else d)"

text \<open>\<open>content || ""\<close> for a content that may be \<open>null\<close>.\<close>

definition or_empty :: "jstring option \<Rightarrow> jstring" where
  "or_empty content = (case content of None \<Rightarrow> [] | Some s \<Rightarrow> s)"

fun str_includes :: "jstring \<Rightarrow> jstring \<Rightarrow> bool" where
  "str_includes [] p = (p = [])"
| "str_includes (x # xs) p = (starts_with (x # xs) p \<or> str_includes xs p)"

fun indexOf :: "jstring \<Rightarrow> jstring \<Rightarrow> nat option" where
  "indexOf [] p = (if p = [] then Some 0 else None)"
| "indexOf (x # xs) p =
     (if starts_with (x # xs) p then Some 0 else map_option Suc (indexOf xs p))"

function show_nat :: "nat \<Rightarrow> jstring" where
  "show_nat n = (if n < 10 then [48 + n] else show_nat (n div 10) @ [48 + n mod 10])"
  by pat_completeness auto
termination
  by (relation "measure id") auto

section \<open>The provider, the clock and the log\<close>

text \<open>
  One call of \<open>openai.chat.completions.create\<close>. The classifier call also sets
  \<open>response_format\<close> to \<open>json_object\<close>, \<open>temperature\<close> to 0.1 and \<open>max_tokens\<close> to 100:
  \<open>rq_json_only\<close> stands for the three.
\<close>

record request =
  rq_model :: json
  rq_content :: jstring
  rq_json_only :: bool

text \<open>What the call resolves to: \<open>choices\<close>, each with the content of its message (\<open>None\<close> is \<open>null\<close>).\<close>

record completion =
  choices :: "jstring option list"

datatype 'a outcome = Rejected | Resolved 'a

datatype level = Info | Warn | Error

text \<open>
  The world a request is handled in: the clock \<open>Date.now()\<close> reads, in milliseconds; what
  the provider answers to a request, and after how many milliseconds; the calls issued so
  far; the events logged so far (the message of each, without its payload).
\<close>

record world =
  now :: nat
  upstream :: "request \<Rightarrow> nat \<times> completion outcome"
  issued :: "request list"
  logged :: "(level \<times> jstring) list"

definition create :: "request \<Rightarrow> world \<Rightarrow> completion outcome \<times> world" where
  "create rq w =
     (let (latency, result) = upstream w rq
      in (result, w\<lparr>now := now w + latency, issued := issued w @ [rq]\<rparr>))"

definition logger :: "level \<Rightarrow> jstring \<Rightarrow> world \<Rightarrow> world" where
  "logger l msg w = w\<lparr>logged := logged w @ [(l, msg)]\<rparr>"

section \<open>The routing policy\<close>

record decision =
  model :: json
  reasoning :: json

definition gpt_oss :: jstring where
  "gpt_oss = js ''openai/gpt-oss-20b:free''"

definition default_reasoning :: jstring where
  "default_reasoning = js ''Default fallback model for simple queries''"

definition error_reasoning :: jstring where
  "error_reasoning = js ''Error in model selection, using default fallback''"

definition prompt_head :: jstring where
  \<open>prompt_head = js ''You are an expert AI model router. Your job is to analyze a user's message and select the most appropriate AI model based on the specific requirements.

Available Models:
1. openai/gpt-oss-20b:free
   - Best for: Simple greetings, basic questions, casual conversation
   - Strengths: Free, fast (0.52s latency), high throughput (162 tps)
   - Limitations: May produce training artifacts, basic reasoning, limited coding capabilities
   - Use when: User asks simple questions, wants casual conversation, or needs quick responses

2. anthropic/claude-sonnet-4
   - Best for: Complex coding tasks, software development, technical analysis
   - Strengths: Excellent coding abilities, SWE-bench 72.7%, 200k context, clean responses
   - Cost: $3/M input, $15/M output tokens
   - Use when: User needs code generation, debugging, software architecture, or when clean formatting is important

3. openai/gpt-5-mini
   - Best for: Complex reasoning, analysis, problem-solving
   - Strengths: Advanced reasoning, 400k context, good instruction following, clean responses
   - Cost: $0.25/M input, $2/M output tokens
   - Use when: User needs logical analysis, mathematical reasoning, strategic thinking, or complex problem-solving

Routing Rules:
- Choose gpt-oss-20b for: Simple greetings, basic questions, casual conversation, or when no specific technical/cognitive demands exist
- Choose claude-sonnet-4 for: Any coding-related tasks, software development, technical implementation, debugging, or when code quality is important
- Choose gpt-5-mini for: Complex reasoning, analysis, problem-solving, mathematical thinking, or when deep cognitive processing is required
User Message: "''\<close>

definition prompt_tail :: jstring where
  \<open>prompt_tail = js ''"

Analyze the message carefully and respond with ONLY a JSON object in this exact format:
{"model": "model_name",
"reasoning": "1 sentence reasoning for the choice"}

Choose the model name exactly as written above (e.g., "openai/gpt-oss-20b:free", "anthropic/claude-sonnet-4", "openai/gpt-5-mini")''\<close>

definition routingPrompt :: "jstring \<Rightarrow> jstring" where
  "routingPrompt message = prompt_head @ message @ prompt_tail"

definition routing_request :: "jstring \<Rightarrow> request" where
  "routing_request message =
     \<lparr>rq_model = JStr (js ''google/gemini-2.5-flash-lite''),
      rq_content = routingPrompt message,
      rq_json_only = True\<rparr>"

text \<open>The body of the \<open>try\<close> block: \<open>Inl\<close> is the exception the \<open>catch\<close> receives.\<close>

definition parse_decision :: "jstring \<Rightarrow> error + decision" where
  "parse_decision responseContent =
     (case JSON_parse responseContent of
        None \<Rightarrow> Inl SyntaxError
      | Some parsedResponse \<Rightarrow>
          (case get_prop parsedResponse (js ''model'') of
             Inl e \<Rightarrow> Inl e
           | Inr m \<Rightarrow>
               (case get_prop parsedResponse (js ''reasoning'') of
                  Inl e \<Rightarrow> Inl e
                | Inr r \<Rightarrow>
                    Inr \<lparr>model = or_else m (JStr gpt_oss),
                         reasoning = or_else r (JStr default_reasoning)\<rparr>)))"

text \<open>
  \<open>llmRouter(message)\<close>. The call is awaited outside the \<open>try\<close> block, so its rejection
  is the rejection of \<open>llmRouter\<close>; \<open>response.choices[0].message\<close> on an empty \<open>choices\<close>
  is a TypeError outside the \<open>try\<close> block as well.
\<close>

definition llmRouter :: "jstring \<Rightarrow> world \<Rightarrow> (error + decision) \<times> world" where
  "llmRouter message w0 =
     (let w1 = logger Info (js ''Routing prompt'') w0;
          (result, w2) = create (routing_request message) w1
      in case result of
           Rejected \<Rightarrow> (Inl UpstreamFailure, w2)
         | Resolved response \<Rightarrow>
             (case choices response of
                [] \<Rightarrow> (Inl TypeError, w2)
              | responseContent # _ \<Rightarrow>
                  if or_empty responseContent = [] then
                    (Inr \<lparr>model = JStr gpt_oss, reasoning = JStr default_reasoning\<rparr>, w2)
                  else
                    (case parse_decision (or_empty responseContent) of
                       Inr d \<Rightarrow> (Inr d, w2)
                     | Inl e \<Rightarrow>
                         (Inr \<lparr>model = JStr gpt_oss, reasoning = JStr error_reasoning\<rparr>,
                          logger Error (js ''Failed to parse routing response'') w2))))"

section \<open>The chat request handler\<close>

record perf_static =
  throughput :: jstring
  timeToFirstToken :: jstring
  tokensPerSecond :: jstring
  cost :: jstring

definition modelPerformance :: "(jstring \<times> perf_static) list" where
  "modelPerformance =
     [ (js ''openai/gpt-oss-20b:free'',
        \<lparr>throughput = js ''162 tps'', timeToFirstToken = js ''0.52s'',
         tokensPerSecond = js ''162'', cost = js ''Free''\<rparr>),
       (js ''anthropic/claude-sonnet-4'',
        \<lparr>throughput = js ''120 tps'', timeToFirstToken = js ''1.2s'',
         tokensPerSecond = js ''120'', cost = js ''$3/M input, $15/M output''\<rparr>),
       (js ''openai/gpt-5-mini'',
        \<lparr>throughput = js ''150 tps'', timeToFirstToken = js ''0.8s'',
         tokensPerSecond = js ''150'', cost = js ''$0.25/M input, $2/M output''\<rparr>) ]"

definition not_available :: perf_static where
  "not_available =
     \<lparr>throughput = js ''N/A'', timeToFirstToken = js ''N/A'',
      tokensPerSecond = js ''N/A'', cost = js ''N/A''\<rparr>"

text \<open>
  The value of \<open>modelPerformance[key] || {...}\<close> for a property key. The object literal
  inherits the members of \<open>Object.prototype\<close>; each of them is truthy and spreads to no
  field, so the name of one leaves the performance without static fields (\<open>None\<close>).
\<close>

definition object_prototype_names :: "jstring list" where
  "object_prototype_names =
     [ js ''constructor'', js ''hasOwnProperty'', js ''isPrototypeOf'',
       js ''propertyIsEnumerable'', js ''toLocaleString'', js ''toString'', js ''valueOf'',
       js ''__proto__'', js ''__defineGetter__'', js ''__defineSetter__'',
       js ''__lookupGetter__'', js ''__lookupSetter__'' ]"

definition lookup_key :: "jstring \<Rightarrow> perf_static option" where
  "lookup_key k =
     (case map_of modelPerformance k of
        Some p \<Rightarrow> Some p
      | None \<Rightarrow> if k \<in> set object_prototype_names then None else Some not_available)"

text \<open>
  \<open>modelPerformance[model]\<close> first converts \<open>model\<close> to a property key, by \<open>ToString\<close>:
  \<^item> a string is its own key, \<open>null\<close>, \<open>true\<close> and \<open>false\<close> have their names;
  \<^item> an object parsed from JSON has no callable member of its own, so one with a member
    \<open>toString\<close> of its own has no primitive value: the conversion throws a TypeError;
    every other object has the key \<open>[object Object]\<close>;
  \<^item> an array has the keys of its elements joined with commas (44), the empty key
    standing for an element \<open>null\<close>; the conversion of an element may throw;
  \<^item> a number has its digits as key: \<open>None\<close> stands for such a key, and for a join
    that contains one. It names no property of \<open>modelPerformance\<close>.
\<close>

fun join_keys :: "(error + jstring option) list \<Rightarrow> error + jstring option" where
  "join_keys [] = Inr (Some [])"
| "join_keys [k] = k"
| "join_keys (k # k' # ks) =
     (case k of
        Inl e \<Rightarrow> Inl e
      | Inr a \<Rightarrow>
          (case join_keys (k' # ks) of
             Inl e \<Rightarrow> Inl e
           | Inr b \<Rightarrow>
               Inr (case a of
                      None \<Rightarrow> None
                    | Some x \<Rightarrow> (case b of None \<Rightarrow> None | Some y \<Rightarrow> Some (x @ [44] @ y)))))"

fun to_key :: "json \<Rightarrow> error + jstring option" where
  "to_key (JStr s) = Inr (Some s)"
| "to_key JNull = Inr (Some (js ''null''))"
| "to_key (JBool b) = Inr (Some (if b then js ''true'' else js ''false''))"
| "to_key (JNum neg m e) = Inr None"
| "to_key (JObj kvs) =
     (if map_of kvs (js ''toString'') \<noteq> None then Inl TypeError
      else Inr (Some (js ''[object Object]'')))"
| "to_key (JArr vs) =
     join_keys (map (\<lambda>v. if v = JNull then Inr (Some []) else to_key v) vs)"

text \<open>\<open>modelPerformance[model] || {...}\<close>, or the TypeError of the conversion.\<close>

definition lookup_performance :: "json \<Rightarrow> error + perf_static option" where
  "lookup_performance m =
     (case to_key m of
        Inl e \<Rightarrow> Inl e
      | Inr None \<Rightarrow> Inr (Some not_available)
      | Inr (Some k) \<Rightarrow> Inr (lookup_key k))"

record performance =
  static :: "perf_static option"
  actualTimeToFirstToken :: jstring

record body =
  body_model :: json
  body_reasoning :: json
  body_performance :: performance
  body_reply :: jstring

definition answerPatterns :: "jstring list" where
  "answerPatterns = [js ''There are'', js ''The answer is'', js ''Answer:'', js ''Final answer:'']"

text \<open>The \<open>for\<close> loop over the answer patterns, left at the first one found.\<close>

fun find_answer :: "jstring \<Rightarrow> jstring list \<Rightarrow> jstring" where
  "find_answer reply [] = reply"
| "find_answer reply (pattern # patterns) =
     (case indexOf reply pattern of
        Some index \<Rightarrow> drop index reply
      | None \<Rightarrow> find_answer reply patterns)"

text \<open>\<open>/analysis|assistantfinal|user\s+wrote|they\s+are\s+asking/gi\<close>\<close>

definition residue :: regex where
  "residue =
     [ lits ''analysis'',
       lits ''assistantfinal'',
       lits ''user'' @ [Plus Space] @ lits ''wrote'',
       lits ''they'' @ [Plus Space] @ lits ''are'' @ [Plus Space] @ lits ''asking'' ]"

definition has_artifacts :: "jstring \<Rightarrow> bool" where
  "has_artifacts reply =
     (reply \<noteq> [] \<and> (str_includes reply (js ''analysis'') \<or> str_includes reply (js ''assistantfinal'')))"

text \<open>
  The fallback block of the handler computes a second candidate: the reply from the first
  answer pattern on, without the residue and trimmed.
\<close>

definition fallback_candidate :: "jstring \<Rightarrow> jstring" where
  "fallback_candidate reply = trim (replace_all residue [] (find_answer reply answerPatterns))"

text \<open>
  \<open>POST(req)\<close>, from the decoded \<open>message\<close> of the request on. A rejection of either
  call and a TypeError (of \<open>choices[0].message\<close>, or of the lookup of the performance)
  are not caught: they are the result of the handler.
\<close>

definition POST :: "jstring \<Rightarrow> world \<Rightarrow> (error + body) \<times> world" where
  "POST message w0 =
     (let startTime = now w0;
          (modelSelection, w1) = llmRouter message w0
      in case modelSelection of
           Inl e \<Rightarrow> (Inl e, w1)
         | Inr selection \<Rightarrow>
             (let w2 = logger Info (js ''Model selected'') w1;
                  (result, w3) = create \<lparr>rq_model = model selection, rq_content = message,
                                          rq_json_only = False\<rparr> w2
              in case result of
                   Rejected \<Rightarrow> (Inl UpstreamFailure, w3)
                 | Resolved response \<Rightarrow>
                     (let endTime = now w3;
                          elapsed = endTime - startTime
                      in case choices response of
                           [] \<Rightarrow> (Inl TypeError, w3)
                         | rawReply # _ \<Rightarrow>
                             (let cleaning = (model selection = JStr gpt_oss);
                                  reply = (if cleaning then cleanModelResponse (or_empty rawReply)
                                           else or_empty rawReply);
                                  w4 = (if cleaning \<and> rawReply \<noteq> Some reply
                                        then logger Info (js ''Response cleaned'') w3 else w3);
                                  fallbackReply = fallback_candidate reply;
                                  accepted = (cleaning \<and> has_artifacts reply
                                                \<and> 10 < length fallbackReply);
                                  reply' = (if accepted then fallbackReply else reply);
                                  w5 = (if accepted
                                        then logger Info (js ''Fallback cleaning applied'') w4
                                        else w4);
                                  w6 = (if cleaning \<and> has_artifacts reply'
                                        then logger Warn
                                          (js ''Response still contains artifacts after cleaning'') w5
                                        else w5)
                              in case lookup_performance (model selection) of
                                   Inl e \<Rightarrow> (Inl e, w6)
                                 | Inr performance \<Rightarrow>
                                     (Inr \<lparr>body_model = model selection,
                                           body_reasoning = reasoning selection,
                                           body_performance =
                                             \<lparr>static = performance,
                                              actualTimeToFirstToken =
                                                show_nat elapsed @ js ''ms''\<rparr>,
                                           body_reply = reply'\<rparr>, w6)))))"

declare parse_value.simps [simp del] parse_elements.simps [simp del] parse_members.simps [simp del]

declare show_nat.simps [simp del]

section \<open>Sample providers\<close>

text \<open>
  A provider that answers the classifier call after \<open>d1\<close> milliseconds with \<open>classified\<close>
  and every other call after \<open>d2\<close> milliseconds with \<open>completed\<close>; a response of one
  choice; and a world at time 1000 in which nothing was issued or logged yet.
\<close>

definition provider ::
  "nat \<Rightarrow> completion outcome \<Rightarrow> nat \<Rightarrow> completion outcome \<Rightarrow> request \<Rightarrow> nat \<times> completion outcome"
where
  "provider d1 classified d2 completed rq =
     (if rq_json_only rq then (d1, classified) else (d2, completed))"

definition replies :: "jstring option \<Rightarrow> completion outcome" where
  "replies content = Resolved \<lparr>choices = [content]\<rparr>"

definition fresh :: "(request \<Rightarrow> nat \<times> completion outcome) \<Rightarrow> world" where
  "fresh p = \<lparr>now = 1000, upstream = p, issued = [], logged = []\<rparr>"

section \<open>Properties of the matcher and of the sanitizer\<close>

lemma match_seq_length: "match_seq p b s = Some r \<Longrightarrow> length r \<le> length s"
proof (induction p b s arbitrary: r rule: match_seq.induct)
  case (7 k p b x xs)
  then show ?case by (fastforce split: if_splits option.splits)
qed (auto split: if_splits)

lemma match_alts_length: "match_alts re b s = Some r \<Longrightarrow> length r \<le> length s"
  by (induction re) (auto split: option.splits dest: match_seq_length)

lemma replace_from_Nil: "replace_from re rep b [] = (case match_alts re b [] of Some r \<Rightarrow> rep | None \<Rightarrow> [])"
  by (subst replace_from.simps) (auto split: option.splits dest: match_alts_length)

lemma replace_from_Cons:
  "replace_from re rep b (x # xs) =
     (case match_alts re b (x # xs) of
        Some rest \<Rightarrow>
          if length rest \<le> length xs then rep @ replace_from re rep False rest
          else rep @ x # replace_from re rep False xs
      | None \<Rightarrow> x # replace_from re rep False xs)"
  by (subst replace_from.simps) (auto split: option.splits)

lemma replace_from_length:
  assumes m: "\<And>b s r. match_alts re b s = Some r \<Longrightarrow> length r + length rep \<le> length s"
  shows "length (replace_from re rep b s) \<le> length s"
proof (induction s arbitrary: b rule: length_induct)
  case (1 s)
  show ?case
  proof (cases s)
    case Nil
    then show ?thesis using m [of b "[]"] by (auto simp: replace_from_Nil split: option.splits)
  next
    case (Cons x xs)
    show ?thesis
    proof (cases "match_alts re b (x # xs)")
      case None
      then show ?thesis using 1 Cons by (simp add: replace_from_Cons)
    next
      case (Some rest)
      from m [OF Some] have le: "length rest + length rep \<le> Suc (length xs)" by simp
      show ?thesis
      proof (cases "length rest \<le> length xs")
        case True
        then have "length (replace_from re rep False rest) \<le> length rest"
          using 1 Cons by simp
        then show ?thesis using Some True le Cons by (simp add: replace_from_Cons)
      next
        case False
        then have "rep = []" using le by (cases rep) auto
        moreover have "length (replace_from re rep False xs) \<le> length xs"
          using 1 Cons by simp
        ultimately show ?thesis using Some False Cons by (simp add: replace_from_Cons)
      qed
    qed
  qed
qed

lemma match_plus_only:
  "match_seq [Plus k] b s =
     (case s of [] \<Rightarrow> None
      | x # xs \<Rightarrow> if in_class k x then Some (dropWhile (in_class k) xs) else None)"
proof (induction s arbitrary: b)
  case Nil
  show ?case by simp
next
  case (Cons x xs)
  show ?case using Cons [of False] by (cases xs) (auto split: option.splits)
qed

lemma length_replace_erase: "length (replace_all re [] s) \<le> length s"
  unfolding replace_all_def
  by (rule replace_from_length) (simp add: match_alts_length)

lemma length_collapse: "length (replace_all [[Plus Space]] [c] s) \<le> length s"
  unfolding replace_all_def
proof (rule replace_from_length)
  fix b s r
  assume "match_alts [[Plus Space]] b s = Some r"
  then obtain x xs where s: "s = x # xs" and r: "r = dropWhile (in_class Space) xs"
    by (auto simp: match_plus_only split: option.splits list.splits if_splits)
  have "length (dropWhile (in_class Space) xs) \<le> length xs" by (rule length_dropWhile_le)
  then show "length r + length [c] \<le> length s" using s r by simp
qed

lemma length_trim: "length (trim s) \<le> length s"
proof -
  have "length (trim s) \<le> length (dropWhile is_space s)"
    unfolding trim_def using length_dropWhile_le [of is_space "rev (dropWhile is_space s)"] by simp
  also have "\<dots> \<le> length s" by (rule length_dropWhile_le)
  finally show ?thesis .
qed

lemma length_erase_all: "length (foldl (\<lambda>cleaned pattern. replace_all pattern [] cleaned) s ps) \<le> length s"
proof (induction ps arbitrary: s)
  case Nil
  show ?case by simp
next
  case (Cons p ps)
  have "length (foldl (\<lambda>cleaned pattern. replace_all pattern [] cleaned) (replace_all p [] s) ps)
          \<le> length (replace_all p [] s)" by (rule Cons.IH)
  also have "\<dots> \<le> length s" by (rule length_replace_erase)
  finally show ?case by simp
qed

lemma length_cleaned_form: "length (cleaned_form x) \<le> length x"
proof -
  let ?a = "strip_artifacts x"
  let ?b = "replace_all [[Plus Space]] (js '' '') ?a"
  have "length (cleaned_form x) \<le> length (trim ?b)"
    unfolding cleaned_form_def Let_def by (rule length_replace_erase)
  also have "\<dots> \<le> length ?b" by (rule length_trim)
  also have "\<dots> \<le> length ?a" unfolding js_def by (simp add: length_collapse)
  also have "\<dots> \<le> length x" unfolding strip_artifacts_def by (rule length_erase_all)
  finally show ?thesis .
qed

text \<open>
  White space is normal in a string when each white-space character of it is a single
  space that neither follows nor precedes another.
\<close>

fun ws_norm :: "jstring \<Rightarrow> bool" where
  "ws_norm [] = True"
| "ws_norm [x] = (\<not> is_space x \<or> x = 32)"
| "ws_norm (x # y # ys) = ((\<not> is_space x \<or> (x = 32 \<and> \<not> is_space y)) \<and> ws_norm (y # ys))"

lemma no_occurrence_replace: "\<not> occurs re b s \<Longrightarrow> replace_from re rep b s = s"
  by (induction s arbitrary: b) (simp_all add: replace_from_Nil replace_from_Cons)

lemma foldl_fixed: "(\<And>p. p \<in> set ps \<Longrightarrow> f s p = s) \<Longrightarrow> foldl f s ps = s"
  by (induction ps) simp_all

lemma strip_artifacts_fixed: "\<not> has_artifact s \<Longrightarrow> strip_artifacts s = s"
  unfolding strip_artifacts_def has_artifact_def list_ex_iff
  by (rule foldl_fixed) (simp add: replace_all_def no_occurrence_replace)

lemma is_space_32: "is_space 32"
  by (simp add: is_space_def)

lemma ws_norm_tail: "ws_norm (x # t) \<Longrightarrow> ws_norm t"
  by (cases t) simp_all

lemma ws_norm_nonspace: "\<not> is_space x \<Longrightarrow> ws_norm (x # t) = ws_norm t"
  by (cases t) simp_all

lemma match_collapse:
  "match_alts [[Plus Space]] b s =
     (case s of [] \<Rightarrow> None
      | x # xs \<Rightarrow> if is_space x then Some (dropWhile is_space xs) else None)"
proof -
  have "in_class Space = is_space" by (rule ext) simp
  then show ?thesis by (simp add: match_plus_only split: list.splits option.splits)
qed

lemma collapse_Nil: "replace_from [[Plus Space]] rep b [] = []"
  by (simp add: replace_from_Nil match_collapse del: match_alts.simps)

lemma collapse_other:
  "\<not> is_space x \<Longrightarrow>
   replace_from [[Plus Space]] rep b (x # xs) = x # replace_from [[Plus Space]] rep False xs"
  by (simp add: replace_from_Cons match_collapse del: match_alts.simps)

lemma collapse_space:
  "is_space x \<Longrightarrow>
   replace_from [[Plus Space]] rep b (x # xs)
     = rep @ replace_from [[Plus Space]] rep False (dropWhile is_space xs)"
  by (simp add: replace_from_Cons match_collapse length_dropWhile_le del: match_alts.simps)

lemma collapse_ws_norm: "ws_norm (replace_from [[Plus Space]] [32] b s)"
proof (induction s arbitrary: b rule: length_induct)
  case (1 s)
  show ?case
  proof (cases s)
    case Nil
    then show ?thesis by (simp add: collapse_Nil)
  next
    case (Cons x xs)
    show ?thesis
    proof (cases "is_space x")
      case False
      then show ?thesis using 1 Cons
        by (simp add: collapse_other ws_norm_nonspace)
    next
      case True
      let ?u = "dropWhile is_space xs"
      have len: "length ?u \<le> length xs" by (rule length_dropWhile_le)
      have r: "replace_from [[Plus Space]] [32] b s = 32 # replace_from [[Plus Space]] [32] False ?u"
        using True Cons by (simp add: collapse_space)
      show ?thesis
      proof (cases ?u)
        case Nil
        show ?thesis unfolding r Nil collapse_Nil by (simp add: is_space_32)
      next
        case (Cons y ys)
        then have ny: "\<not> is_space y" using hd_dropWhile [of is_space xs] by auto
        have "length ys < length s" using len Cons \<open>s = x # xs\<close> by simp
        then have "ws_norm (replace_from [[Plus Space]] [32] False ys)" using 1 by simp
        then show ?thesis using r Cons ny
          by (simp add: collapse_other ws_norm_nonspace)
      qed
    qed
  qed
qed

lemma collapse_fixed: "ws_norm s \<Longrightarrow> replace_from [[Plus Space]] [32] b s = s"
proof (induction s arbitrary: b)
  case Nil
  show ?case by (simp add: collapse_Nil)
next
  case (Cons x xs)
  have t: "replace_from [[Plus Space]] [32] False xs = xs"
    using Cons ws_norm_tail by blast
  show ?case
  proof (cases "is_space x")
    case False
    then show ?thesis using t by (simp add: collapse_other)
  next
    case True
    then have "x = 32" and "dropWhile is_space xs = xs"
      using Cons.prems by (cases xs; simp)+
    then show ?thesis using True t by (simp add: collapse_space)
  qed
qed

lemma ws_norm_suffix: "ws_norm (xs @ ys) \<Longrightarrow> ws_norm ys"
  by (induction xs) (auto dest: ws_norm_tail)

lemma ws_norm_prefix: "ws_norm (xs @ ys) \<Longrightarrow> ws_norm xs"
proof (induction xs rule: ws_norm.induct)
  case 1
  show ?case by simp
next
  case (2 x)
  then show ?case by (cases ys) auto
next
  case (3 x y zs)
  then show ?case by auto
qed

lemma ws_norm_dropWhile: "ws_norm s \<Longrightarrow> ws_norm (dropWhile P s)"
  using ws_norm_suffix [of "takeWhile P s" "dropWhile P s"] by simp

lemma rstrip_prefix: "rev (dropWhile P (rev s)) @ rev (takeWhile P (rev s)) = s"
proof -
  have "rev (takeWhile P (rev s) @ dropWhile P (rev s)) = s" by simp
  then show ?thesis by (simp only: rev_append)
qed

lemma ws_norm_rstrip: "ws_norm s \<Longrightarrow> ws_norm (rev (dropWhile P (rev s)))"
  using ws_norm_prefix [of "rev (dropWhile P (rev s))" "rev (takeWhile P (rev s))"]
  by (simp only: rstrip_prefix)

lemma match_plus_eol:
  "match_seq [Plus k, Eol] b s =
     (if s \<noteq> [] \<and> list_all (in_class k) s then Some [] else None)"
proof (induction s arbitrary: b)
  case Nil
  show ?case by simp
next
  case (Cons x xs)
  show ?case using Cons [of False] by (cases xs) (auto split: option.splits)
qed

lemma match_edge_inner:
  "match_alts edge_punct False s =
     (if s \<noteq> [] \<and> list_all (in_class PunctSpace) s then Some [] else None)"
  unfolding edge_punct_def by (simp add: match_plus_eol del: match_seq.simps(6,7))

lemma match_edge_start:
  "match_alts edge_punct True s =
     (case s of [] \<Rightarrow> None
      | x # xs \<Rightarrow> if in_class PunctSpace x
                 then Some (dropWhile (in_class PunctSpace) xs) else None)"
proof -
  have "match_alts edge_punct True s
          = (case match_seq [Plus PunctSpace] True s of
               Some r \<Rightarrow> Some r
             | None \<Rightarrow> (case match_seq [Plus PunctSpace, Eol] True s of
                          Some r \<Rightarrow> Some r | None \<Rightarrow> None))"
    unfolding edge_punct_def by (simp del: match_seq.simps(6,7) split: option.splits)
  then show ?thesis
    by (simp add: match_plus_only match_plus_eol del: match_seq.simps(6,7)
          split: list.splits)
qed

lemma rstrip_Cons:
  "rev (dropWhile P (rev (x # xs))) =
     (if list_all P (x # xs) then [] else x # rev (dropWhile P (rev xs)))"
proof (cases "list_all P xs")
  case True
  then have all: "\<And>y. y \<in> set (rev xs) \<Longrightarrow> P y" by (simp add: list_all_iff)
  have a: "dropWhile P (rev xs @ [x]) = dropWhile P [x]"
    using all by (rule dropWhile_append2)
  have b: "dropWhile P (rev xs) = []" using all by simp
  show ?thesis using True by (simp add: a b del: dropWhile_append2 dropWhile_append1)
next
  case False
  then have "\<exists>y\<in>set (rev xs). \<not> P y" by (simp add: list_all_iff)
  then have "dropWhile P (rev xs @ [x]) = dropWhile P (rev xs) @ [x]"
    by (metis dropWhile_append1)
  then show ?thesis using False by simp
qed

lemma edge_inner: "replace_from edge_punct [] False s = rev (dropWhile (in_class PunctSpace) (rev s))"
proof (induction s)
  case Nil
  show ?case by (simp add: replace_from_Nil match_edge_inner)
next
  case (Cons x xs)
  show ?case
  proof (cases "list_all (in_class PunctSpace) (x # xs)")
    case True
    then show ?thesis
      by (simp only: replace_from_Cons match_edge_inner rstrip_Cons)
         (simp add: replace_from_Nil match_edge_inner)
  next
    case False
    then show ?thesis using Cons
      by (simp only: replace_from_Cons match_edge_inner rstrip_Cons) simp
  qed
qed

lemma edge_replace:
  "replace_all edge_punct [] s
     = rev (dropWhile (in_class PunctSpace) (rev (dropWhile (in_class PunctSpace) s)))"
proof (cases s)
  case Nil
  then show ?thesis by (simp add: replace_all_def replace_from_Nil match_edge_start)
next
  case (Cons x xs)
  show ?thesis
  proof (cases "in_class PunctSpace x")
    case True
    then show ?thesis using Cons length_dropWhile_le [of "in_class PunctSpace" xs]
      by (simp add: replace_all_def replace_from_Cons match_edge_start edge_inner)
  next
    case False
    then have "\<not> list_all (in_class PunctSpace) (x # xs)" by simp
    then show ?thesis using Cons False
      by (simp add: replace_all_def replace_from_Cons match_edge_start edge_inner rstrip_Cons
            del: in_class.simps rev.simps)
  qed
qed

lemma lstrip_rstrip:
  assumes "dropWhile P u = u"
  shows "dropWhile P (rev (dropWhile P (rev u))) = rev (dropWhile P (rev u))"
proof (cases "rev (dropWhile P (rev u))")
  case Nil
  show ?thesis unfolding Nil by simp
next
  case (Cons h t)
  then have "u = h # t @ rev (takeWhile P (rev u))"
    using rstrip_prefix [of P u] by simp
  then obtain w where u: "u = h # w" by blast
  have "\<not> P h" using assms hd_dropWhile [of P u] u by auto
  then show ?thesis using Cons by simp
qed

lemma dropWhile_weaker:
  assumes "dropWhile P s = s" and "\<And>x. Q x \<Longrightarrow> P x"
  shows "dropWhile Q s = s"
proof (cases s)
  case Nil
  then show ?thesis by simp
next
  case (Cons x xs)
  have "\<not> P x" using assms(1) hd_dropWhile [of P s] Cons by auto
  then have "\<not> Q x" using assms(2) by blast
  then show ?thesis using Cons by simp
qed

lemma cleaned_form_fixed:
  assumes "\<not> has_artifact (cleaned_form x)"
  shows "cleaned_form (cleaned_form x) = cleaned_form x"
proof -
  let ?P = "in_class PunctSpace"
  define t where "t = trim (replace_all [[Plus Space]] (js '' '') (strip_artifacts x))"
  define u where "u = dropWhile ?P t"
  define c where "c = rev (dropWhile ?P (rev u))"
  have cx: "cleaned_form x = c"
    by (simp add: cleaned_form_def Let_def t_def u_def c_def edge_replace)
  have sp: "js '' '' = [32]" by (simp add: js_def)
  have "ws_norm (replace_all [[Plus Space]] (js '' '') (strip_artifacts x))"
    unfolding sp replace_all_def by (rule collapse_ws_norm)
  then have "ws_norm t"
    unfolding t_def trim_def by (intro ws_norm_rstrip ws_norm_dropWhile)
  then have nc: "ws_norm c"
    unfolding c_def u_def by (intro ws_norm_rstrip ws_norm_dropWhile)
  have "dropWhile ?P u = u" unfolding u_def by simp
  then have l: "dropWhile ?P c = c" unfolding c_def by (rule lstrip_rstrip)
  have r: "dropWhile ?P (rev c) = rev c" unfolding c_def by simp
  have sub: "\<And>y. is_space y \<Longrightarrow> ?P y" by simp
  have ls: "dropWhile is_space c = c" using l sub by (rule dropWhile_weaker)
  have rs: "dropWhile is_space (rev c) = rev c" using r sub by (rule dropWhile_weaker)
  have 1: "strip_artifacts c = c" using assms cx by (simp add: strip_artifacts_fixed)
  have 2: "replace_all [[Plus Space]] (js '' '') c = c"
    unfolding sp replace_all_def using nc by (rule collapse_fixed)
  have 3: "trim c = c" by (simp add: trim_def ls rs)
  have 4: "replace_all edge_punct [] c = c" by (simp add: edge_replace l r)
  have "cleaned_form c = c" by (simp add: cleaned_form_def Let_def 1 2 3 4)
  then show ?thesis by (simp add: cx)
qed

section \<open>Evaluating the sanitizer\<close>

lemmas match_eval = js_def lits_def ci_eq_def to_upper_def is_space_def replace_all_def
  replace_from_Nil replace_from_Cons

lemma strip_sample_nested:
  "strip_artifacts (js ''anaanalysislysis hello world'') = js ''analysis hello world''"
  by (simp add: strip_artifacts_def artifacts_def match_eval)

lemma cleaned_sample_nested:
  "cleaned_form (js ''anaanalysislysis hello world'') = js ''analysis hello world''"
  unfolding cleaned_form_def Let_def strip_sample_nested
  by (simp add: trim_def edge_punct_def match_eval)

lemma strip_sample_inner: "strip_artifacts (js ''analysis hello world'') = js '' hello world''"
  by (simp add: strip_artifacts_def artifacts_def match_eval)

lemma cleaned_sample_inner: "cleaned_form (js ''analysis hello world'') = js ''hello world''"
  unfolding cleaned_form_def Let_def strip_sample_inner
  by (simp add: trim_def edge_punct_def match_eval)

lemma strip_sample_short: "strip_artifacts (js ''analysis Hi!'') = js '' Hi!''"
  by (simp add: strip_artifacts_def artifacts_def match_eval)

lemma cleaned_sample_short: "cleaned_form (js ''analysis Hi!'') = js ''Hi!''"
  unfolding cleaned_form_def Let_def strip_sample_short
  by (simp add: trim_def edge_punct_def match_eval)

lemma strip_sample_plain:
  "strip_artifacts (js ''analysis  Hello,   world. '') = js ''  Hello,   world. ''"
  by (simp add: strip_artifacts_def artifacts_def match_eval)

lemma cleaned_sample_plain: "cleaned_form (js ''analysis  Hello,   world. '') = js ''Hello, world''"
  unfolding cleaned_form_def Let_def strip_sample_plain
  by (simp add: trim_def edge_punct_def match_eval)

lemma no_artifact_sample_plain: "\<not> has_artifact (js ''Hello, world'')"
  by (simp add: has_artifact_def artifacts_def match_eval)

section \<open>The claims about the sanitizer\<close>

text \<open>
  C7. For every input whose cleaned form (artifacts removed, white space normalised,
  punctuation trimmed) is shorter than 10, the sanitizer returns the original input
  unchanged, not the cleaned form.
\<close>

theorem clean_gate: "length (cleaned_form x) < 10 \<Longrightarrow> cleanModelResponse x = x"
  by (simp add: cleanModelResponse_def)

theorem clean_gate_witness:
  "length (cleaned_form (js ''analysis Hi!'')) < 10
   \<and> cleanModelResponse (js ''analysis Hi!'') = js ''analysis Hi!''"
proof -
  have short: "length (cleaned_form (js ''analysis Hi!'')) < 10"
    unfolding cleaned_sample_short by (simp add: js_def)
  show ?thesis using short clean_gate [OF short] by simp
qed

text \<open>
  C9. For every input, the result of the sanitizer is either exactly the input or a
  string of length at least 10: it never returns a modified result shorter than 10.
\<close>

theorem clean_original_or_long: "cleanModelResponse x = x \<or> 10 \<le> length (cleanModelResponse x)"
  by (simp add: cleanModelResponse_def Let_def)

theorem clean_original_or_long_witness:
  "cleanModelResponse (js ''analysis hello world'') = js ''hello world''
   \<and> 10 \<le> length (cleanModelResponse (js ''analysis hello world''))"
proof -
  have c: "cleanModelResponse (js ''analysis hello world'') = js ''hello world''"
    by (simp add: cleanModelResponse_def cleaned_sample_inner) (simp add: js_def)
  have "js ''hello world'' \<noteq> js ''analysis hello world''" by (simp add: js_def)
  then show ?thesis using clean_original_or_long [of "js ''analysis hello world''"] c by simp
qed

text \<open>
  C10. The sanitizer never lengthens its input: the length of its result is at most the
  length of the input.
\<close>

theorem clean_never_longer: "length (cleanModelResponse x) \<le> length x"
  by (simp add: cleanModelResponse_def Let_def length_cleaned_form)

text \<open>
  C2, as stated: the sanitizer is idempotent on every input whose cleaned form has length
  at least 10. It is not: removing an artifact can join its neighbours into a new one.
  The cleaned form of \<open>anaanalysislysis hello world\<close> is \<open>analysis hello world\<close>, of
  length 20, and cleaning that gives \<open>hello world\<close>.
\<close>

theorem clean_idempotent_counterexample:
  "10 \<le> length (cleaned_form (js ''anaanalysislysis hello world''))
   \<and> cleanModelResponse (cleanModelResponse (js ''anaanalysislysis hello world''))
       \<noteq> cleanModelResponse (js ''anaanalysislysis hello world'')"
proof -
  have 1: "cleanModelResponse (js ''anaanalysislysis hello world'') = js ''analysis hello world''"
    by (simp add: cleanModelResponse_def cleaned_sample_nested) (simp add: js_def)
  have 2: "cleanModelResponse (js ''analysis hello world'') = js ''hello world''"
    by (simp add: cleanModelResponse_def cleaned_sample_inner) (simp add: js_def)
  have 3: "js ''hello world'' \<noteq> js ''analysis hello world''" by (simp add: js_def)
  have 4: "10 \<le> length (cleaned_form (js ''anaanalysislysis hello world''))"
    unfolding cleaned_sample_nested by (simp add: js_def)
  show ?thesis using 3 4 by (simp only: 1 2) simp
qed

text \<open>
  C2, amended: on every input whose cleaned form has length at least 10 and has no
  artifact left in it, the sanitizer is idempotent.
\<close>

theorem clean_idempotent_if_artifact_free:
  assumes "10 \<le> length (cleaned_form x)" and "\<not> has_artifact (cleaned_form x)"
  shows "cleanModelResponse (cleanModelResponse x) = cleanModelResponse x"
proof -
  have "length (cleaned_form x) \<le> length x" by (rule length_cleaned_form)
  then have "x \<noteq> []" using assms(1) by auto
  then have c: "cleanModelResponse x = cleaned_form x"
    using assms(1) by (simp add: cleanModelResponse_def Let_def)
  have "cleaned_form x \<noteq> []" using assms(1) by auto
  then have "cleanModelResponse (cleaned_form x) = cleaned_form x"
    using assms by (simp add: cleanModelResponse_def Let_def cleaned_form_fixed)
  then show ?thesis by (simp add: c)
qed

theorem clean_idempotent_if_artifact_free_witness:
  "10 \<le> length (cleaned_form (js ''analysis  Hello,   world. ''))
   \<and> \<not> has_artifact (cleaned_form (js ''analysis  Hello,   world. ''))
   \<and> cleanModelResponse (cleanModelResponse (js ''analysis  Hello,   world. ''))
       = cleanModelResponse (js ''analysis  Hello,   world. '')"
proof -
  have long: "10 \<le> length (cleaned_form (js ''analysis  Hello,   world. ''))"
    unfolding cleaned_sample_plain by (simp add: js_def)
  have free: "\<not> has_artifact (cleaned_form (js ''analysis  Hello,   world. ''))"
    by (simp only: cleaned_sample_plain no_artifact_sample_plain not_False_eq_True)
  show ?thesis using long free clean_idempotent_if_artifact_free [OF long free] by simp
qed

section \<open>Properties of the parser\<close>

lemma parse_number_shorter:
  assumes "parse_number s = Some (v, r)"
  shows "length r < length s"
proof -
  define neg where "neg = (case s of [] \<Rightarrow> False | c # _ \<Rightarrow> c = 45)"
  define s1 where "s1 = (if neg then tl s else s)"
  define ip where "ip = (case s1 of [] \<Rightarrow> [] | c # _ \<Rightarrow> if c = 48 then [c] else takeWhile is_digit s1)"
  define s2 where "s2 = drop (length ip) s1"
  define has_frac where "has_frac = (case s2 of [] \<Rightarrow> False | c # _ \<Rightarrow> c = 46)"
  define fp where "fp = (if has_frac then takeWhile is_digit (tl s2) else [])"
  define s3 where "s3 = (if has_frac then drop (length fp) (tl s2) else s2)"
  define has_exp where "has_exp = (case s3 of [] \<Rightarrow> False | c # _ \<Rightarrow> c = 101 \<or> c = 69)"
  define s4 where "s4 = (if has_exp then tl s3 else s3)"
  define s5 where "s5 = (if has_exp \<and> (case s4 of [] \<Rightarrow> False | c # _ \<Rightarrow> c = 45 \<or> c = 43)
                then tl s4 else s4)"
  define ep where "ep = (if has_exp then takeWhile is_digit s5 else [])"
  define s6 where "s6 = drop (length ep) s5"
  have res: "ip \<noteq> [] \<and> r = s6"
    using assms
    unfolding parse_number_def Let_def neg_def [symmetric] s1_def [symmetric] ip_def [symmetric]
      s2_def [symmetric] has_frac_def [symmetric] fp_def [symmetric] s3_def [symmetric]
      has_exp_def [symmetric] s4_def [symmetric] s5_def [symmetric] ep_def [symmetric]
      s6_def [symmetric]
    by (auto split: if_splits)
  have "length ip \<le> length s1"
  proof (cases s1)
    case Nil
    then show ?thesis by (simp add: ip_def)
  next
    case (Cons a l)
    have "length (takeWhile is_digit s1) \<le> length s1" by (rule length_takeWhile_le)
    then show ?thesis unfolding ip_def Cons by (simp del: takeWhile.simps)
  qed
  then have "length s2 < length s1" using res unfolding s2_def by (cases ip) auto
  moreover have "length s1 \<le> length s" unfolding s1_def by simp
  moreover have "length s3 \<le> length s2" unfolding s3_def by simp
  moreover have "length s4 \<le> length s3" unfolding s4_def by simp
  moreover have "length s5 \<le> length s4" unfolding s5_def by simp
  moreover have "length s6 \<le> length s5" unfolding s6_def by simp
  ultimately show ?thesis using res by simp
qed

lemma parse_word_shorter: "parse_word s = Some (v, r) \<Longrightarrow> length r < length s"
  by (cases s) (auto simp: parse_word_def starts_with_def js_def split: if_splits)

lemma skip_ws_Cons_less: "skip_ws s = c # r \<Longrightarrow> length r < length s"
  using skip_ws_le [of s] by simp

lemma parse_shorter:
  "(\<forall>v r. parse_value s = Some (v, r) \<longrightarrow> length r < length s)"
  "(\<forall>vs r. parse_elements s2 = Some (vs, r) \<longrightarrow> length r < length s2)"
  "(\<forall>kvs r. parse_members s3 = Some (kvs, r) \<longrightarrow> length r < length s3)"
proof (induction s and s2 and s3 rule: parse_value_parse_elements_parse_members.induct)
  case (1 s)
  show ?case
  proof (intro allI impI)
    fix v r
    assume a: "parse_value s = Some (v, r)"
    then obtain c r0 where sk: "skip_ws s = c # r0"
      by (subst (asm) parse_value.simps) (auto split: list.splits)
    have r0: "length r0 < length s" using sk by (rule skip_ws_Cons_less)
    show "length r < length s"
    proof (cases "c = 123")
      case True
      then obtain d r1 where sk1: "skip_ws r0 = d # r1"
        using a sk by (subst (asm) parse_value.simps) (auto split: list.splits)
      show ?thesis
      proof (cases "d = 125")
        case T: True
        then have "r = r1" using a sk sk1 True by (subst (asm) parse_value.simps) simp
        then show ?thesis using skip_ws_Cons_less [OF sk1] r0 by simp
      next
        case False
        then obtain kvs where "parse_members r0 = Some (kvs, r)"
          using a sk sk1 True by (subst (asm) parse_value.simps) (auto split: option.splits)
        then have "length r < length r0" using 1(1) [OF sk True sk1 False] by blast
        then show ?thesis using r0 by simp
      qed
    next
      case n123: False
      show ?thesis
      proof (cases "c = 91")
        case True
        then obtain d r1 where sk1: "skip_ws r0 = d # r1"
          using a sk by (subst (asm) parse_value.simps) (auto split: list.splits)
        show ?thesis
        proof (cases "d = 93")
          case T: True
          then have "r = r1" using a sk sk1 True by (subst (asm) parse_value.simps) simp
          then show ?thesis using skip_ws_Cons_less [OF sk1] r0 by simp
        next
          case False
          then obtain vs where "parse_elements r0 = Some (vs, r)"
            using a sk sk1 True by (subst (asm) parse_value.simps) (auto split: option.splits)
          then have "length r < length r0" using 1(2) [OF sk n123 True sk1 False] by blast
          then show ?thesis using r0 by simp
        qed
      next
        case n91: False
        show ?thesis
        proof (cases "c = 34")
          case True
          then obtain cs where "parse_chars r0 = Some (cs, r)"
            using a sk n123 n91 by (subst (asm) parse_value.simps) (auto split: option.splits)
          then show ?thesis using parse_chars_shorter r0 by fastforce
        next
          case False
          then have "parse_number (c # r0) = Some (v, r) \<or> parse_word (c # r0) = Some (v, r)"
            using a sk n123 n91 by (subst (asm) parse_value.simps) (auto split: if_splits)
          then have "length r < length (c # r0)"
            using parse_number_shorter parse_word_shorter by blast
          then show ?thesis using r0 by simp
        qed
      qed
    qed
  qed
next
  case (2 s)
  show ?case
  proof (intro allI impI)
    fix vs r
    assume a: "parse_elements s = Some (vs, r)"
    then obtain v r0 where pv: "parse_value s = Some (v, r0)" and lt: "length r0 < length s"
      by (subst (asm) parse_elements.simps) (auto split: option.splits if_splits)
    then obtain c r1 where sk: "skip_ws r0 = c # r1"
      using a by (subst (asm) parse_elements.simps) (auto split: list.splits)
    have r1: "length r1 < length s" using skip_ws_Cons_less [OF sk] lt by simp
    show "length r < length s"
    proof (cases "c = 44")
      case True
      then obtain ws where "parse_elements r1 = Some (ws, r)"
        using a pv lt sk by (subst (asm) parse_elements.simps) (auto split: option.splits)
      then have "length r < length r1" using 2(2) pv lt sk True by blast
      then show ?thesis using r1 by simp
    next
      case False
      then have "r = r1"
        using a pv lt sk by (subst (asm) parse_elements.simps) (auto split: if_splits)
      then show ?thesis using r1 by simp
    qed
  qed
next
  case (3 s)
  show ?case
  proof (intro allI impI)
    fix kvs r
    assume a: "parse_members s = Some (kvs, r)"
    then obtain q r0 where sk: "skip_ws s = q # r0"
      by (subst (asm) parse_members.simps) (auto split: list.splits)
    have q: "q = 34" using a sk by (subst (asm) parse_members.simps) (auto split: if_splits)
    obtain k r1 where pc: "parse_chars r0 = Some (k, r1)"
      using a sk q by (subst (asm) parse_members.simps) (auto split: option.splits)
    obtain c r2 where sk1: "skip_ws r1 = c # r2"
      using a sk q pc by (subst (asm) parse_members.simps) (auto split: list.splits)
    have c: "c = 58"
      using a sk q pc sk1 by (subst (asm) parse_members.simps) (auto split: if_splits)
    obtain v r3 where pv: "parse_value r2 = Some (v, r3)" and lt: "length r3 < length r2"
      using a sk q pc sk1 c
      by (subst (asm) parse_members.simps) (auto split: option.splits if_splits)
    obtain d r4 where sk2: "skip_ws r3 = d # r4"
      using a sk q pc sk1 c pv lt by (subst (asm) parse_members.simps) (auto split: list.splits)
    have "length r4 < length r3" using sk2 by (rule skip_ws_Cons_less)
    moreover have "length r2 < length r1" using sk1 by (rule skip_ws_Cons_less)
    moreover have "length r1 < length r0" using pc by (rule parse_chars_shorter)
    moreover have "length r0 < length s" using sk by (rule skip_ws_Cons_less)
    ultimately have r4: "length r4 < length s" using lt by simp
    show "length r < length s"
    proof (cases "d = 44")
      case True
      then obtain ws where "parse_members r4 = Some (ws, r)"
        using a sk q pc sk1 c pv lt sk2
        by (subst (asm) parse_members.simps) (auto split: option.splits)
      then have "length r < length r4" using 3(2) sk q pc sk1 c pv lt sk2 True by blast
      then show ?thesis using r4 by simp
    next
      case False
      then have "r = r4"
        using a sk q pc sk1 c pv lt sk2
        by (subst (asm) parse_members.simps) (auto split: if_splits)
      then show ?thesis using r4 by simp
    qed
  qed
qed

lemma parse_value_shorter: "parse_value s = Some (v, r) \<Longrightarrow> length r < length s"
  using parse_shorter(1) by blast

section \<open>Properties of the router and of the handler\<close>

lemma llmRouter_result:
  "fst (llmRouter message w) =
     (case snd (upstream w (routing_request message)) of
        Rejected \<Rightarrow> Inl UpstreamFailure
      | Resolved response \<Rightarrow>
          (case choices response of
             [] \<Rightarrow> Inl TypeError
           | c # _ \<Rightarrow>
               if or_empty c = [] then
                 Inr \<lparr>model = JStr gpt_oss, reasoning = JStr default_reasoning\<rparr>
               else
                 (case parse_decision (or_empty c) of
                    Inr d \<Rightarrow> Inr d
                  | Inl e \<Rightarrow> Inr \<lparr>model = JStr gpt_oss, reasoning = JStr error_reasoning\<rparr>)))"
  by (simp add: llmRouter_def create_def logger_def Let_def
        split: prod.splits outcome.splits list.splits sum.splits)

lemma llmRouter_world:
  "now (snd (llmRouter message w)) = now w + fst (upstream w (routing_request message))"
  "upstream (snd (llmRouter message w)) = upstream w"
  "issued (snd (llmRouter message w)) = issued w @ [routing_request message]"
  by (simp_all add: llmRouter_def create_def logger_def Let_def
        split: prod.splits outcome.splits list.splits sum.splits)

lemma POST_routed_failure:
  assumes "fst (llmRouter message w) = Inl e"
  shows "fst (POST message w) = Inl e"
proof -
  obtain w1 where "llmRouter message w = (Inl e, w1)"
    using assms by (cases "llmRouter message w") simp
  then show ?thesis by (simp add: POST_def Let_def)
qed

lemma POST_issued:
  assumes "fst (llmRouter message w) = Inr d"
  shows "issued (snd (POST message w))
           = issued w @ [routing_request message,
                         \<lparr>rq_model = model d, rq_content = message, rq_json_only = False\<rparr>]"
proof -
  obtain w1 where r: "llmRouter message w = (Inr d, w1)"
    using assms by (cases "llmRouter message w") simp
  have "issued w1 = issued w @ [routing_request message]"
    using llmRouter_world(3) [of message w] r by simp
  then show ?thesis
    by (simp add: POST_def r create_def logger_def Let_def
          split: prod.splits outcome.splits list.splits sum.splits)
qed

lemma POST_body:
  assumes "fst (llmRouter message w) = Inr d"
    and "upstream w \<lparr>rq_model = model d, rq_content = message, rq_json_only = False\<rparr>
           = (latency, Resolved response)"
    and "choices response = rawReply # others"
  shows "fst (POST message w) =
           (case lookup_performance (model d) of
              Inl e \<Rightarrow> Inl e
            | Inr p \<Rightarrow>
                Inr \<lparr>body_model = model d,
                     body_reasoning = reasoning d,
                     body_performance =
                       \<lparr>static = p,
                        actualTimeToFirstToken =
                          show_nat (fst (upstream w (routing_request message)) + latency)
                            @ js ''ms''\<rparr>,
                     body_reply =
                       (if model d = JStr gpt_oss then
                          (let cleaned = cleanModelResponse (or_empty rawReply)
                           in if has_artifacts cleaned \<and> 10 < length (fallback_candidate cleaned)
                              then fallback_candidate cleaned else cleaned)
                        else or_empty rawReply)\<rparr>)"
proof -
  obtain w1 where r: "llmRouter message w = (Inr d, w1)"
    using assms(1) by (cases "llmRouter message w") simp
  have n: "now w1 = now w + fst (upstream w (routing_request message))"
    and u: "upstream w1 = upstream w"
    using llmRouter_world(1,2) [of message w] r by simp_all
  show ?thesis
    using assms(2,3)
    by (simp add: POST_def r create_def logger_def Let_def n u split: sum.splits)
qed

lemma lookup_performance_string: "lookup_performance (JStr s) = Inr (lookup_key s)"
  by (simp add: lookup_performance_def)

lemma POST_returns:
  assumes "fst (llmRouter message w) = Inr d"
    and "snd (upstream w \<lparr>rq_model = model d, rq_content = message, rq_json_only = False\<rparr>)
           = Resolved response"
    and "choices response = rawReply # others"
    and "lookup_performance (model d) = Inr p"
  shows "\<exists>b. fst (POST message w) = Inr b"
proof -
  let ?rq = "\<lparr>rq_model = model d, rq_content = message, rq_json_only = False\<rparr>"
  have up: "upstream w ?rq = (fst (upstream w ?rq), Resolved response)"
    using assms(2) by (cases "upstream w ?rq") simp
  show ?thesis
    unfolding POST_body [OF assms(1) up assms(3)] by (simp add: assms(4))
qed

section \<open>Evaluating the router and the handler\<close>

lemmas parse_eval = JSON_parse_def parse_value.simps parse_elements.simps parse_members.simps
  skip_ws_def json_ws_def is_digit_def push_def parse_word_def starts_with_def js_def

lemma parse_sample_foo:
  \<open>JSON_parse (js ''{"model":"foo"}'') = Some (JObj [(js ''model'', JStr (js ''foo''))])\<close>
  by (simp add: parse_eval)

lemma parse_sample_empty_object: "JSON_parse (js ''{}'') = Some (JObj [])"
  by (simp add: parse_eval)

lemma parse_sample_not_json: "JSON_parse (js ''not json'') = None"
  by (simp add: parse_eval)

lemma parse_sample_gpt_oss:
  \<open>JSON_parse (js ''{"model":"openai/gpt-oss-20b:free","reasoning":"A simple greeting"}'')
     = Some (JObj [(js ''model'', JStr (js ''openai/gpt-oss-20b:free'')),
                   (js ''reasoning'', JStr (js ''A simple greeting''))])\<close>
  by (simp add: parse_eval)

lemma parse_sample_mini:
  \<open>JSON_parse (js ''{"model":"openai/gpt-5-mini","reasoning":"Needs reasoning"}'')
     = Some (JObj [(js ''model'', JStr (js ''openai/gpt-5-mini'')),
                   (js ''reasoning'', JStr (js ''Needs reasoning''))])\<close>
  by (simp add: parse_eval)

lemma js_eq_Nil: "js s = [] \<longleftrightarrow> s = []"
  by (simp add: js_def)

lemma js_inject: "js a = js b \<longleftrightarrow> a = b"
proof -
  have "inj (of_char :: char \<Rightarrow> nat)" by (rule inj_of_char)
  then have "inj (map (of_char :: char \<Rightarrow> nat))" by simp
  then show ?thesis unfolding js_def by (auto dest: injD)
qed

lemmas world_eval = fresh_def provider_def replies_def routing_request_def or_empty_def
  js_eq_Nil js_inject gpt_oss_def default_reasoning_def error_reasoning_def

lemma route_sample_empty_object:
  "fst (llmRouter (js ''hello'')
         (fresh (provider 100 (replies (Some (js ''{}''))) 50 Rejected)))
     = Inr \<lparr>model = JStr (js ''openai/gpt-oss-20b:free''),
            reasoning = JStr (js ''Default fallback model for simple queries'')\<rparr>"
  by (simp add: llmRouter_result world_eval parse_decision_def parse_sample_empty_object
        or_else_def)

lemma route_sample_foo:
  \<open>fst (llmRouter (js ''hello'')
         (fresh (provider 100 (replies (Some (js ''{"model":"foo"}'')))
                          50 (replies (Some (js ''Hello from the model''))))))
     = Inr \<lparr>model = JStr (js ''foo''),
            reasoning = JStr (js ''Default fallback model for simple queries'')\<rparr>\<close>
  by (simp add: llmRouter_result world_eval parse_decision_def parse_sample_foo or_else_def)

lemma route_sample_gpt_oss:
  \<open>fst (llmRouter (js ''hello'')
         (fresh (provider 100
                   (replies (Some (js ''{"model":"openai/gpt-oss-20b:free","reasoning":"A simple greeting"}'')))
                   50 (replies (Some (js ''analysis hello world''))))))
     = Inr \<lparr>model = JStr (js ''openai/gpt-oss-20b:free''),
            reasoning = JStr (js ''A simple greeting'')\<rparr>\<close>
  by (simp add: llmRouter_result world_eval parse_decision_def parse_sample_gpt_oss or_else_def)

lemma route_sample_mini:
  \<open>fst (llmRouter (js ''hello'')
         (fresh (provider 100
                   (replies (Some (js ''{"model":"openai/gpt-5-mini","reasoning":"Needs reasoning"}'')))
                   50 (replies (Some (js ''analysis hello world''))))))
     = Inr \<lparr>model = JStr (js ''openai/gpt-5-mini''),
            reasoning = JStr (js ''Needs reasoning'')\<rparr>\<close>
  by (simp add: llmRouter_result world_eval parse_decision_def parse_sample_mini or_else_def)

lemma show_nat_150: "show_nat 150 = js ''150''"
  by (simp add: show_nat.simps [of 150] show_nat.simps [of 15] show_nat.simps [of 1]
        show_nat.simps [of "Suc 0"] js_def)

lemma lookup_sample_foo: "lookup_performance (JStr (js ''foo'')) = Inr (Some not_available)"
  by (simp add: lookup_performance_def lookup_key_def modelPerformance_def
        object_prototype_names_def js_inject)

lemma POST_sample_foo:
  \<open>fst (POST (js ''hello'')
         (fresh (provider 100 (replies (Some (js ''{"model":"foo"}'')))
                          50 (replies (Some (js ''Hello from the model''))))))
     = Inr \<lparr>body_model = JStr (js ''foo''),
            body_reasoning = JStr (js ''Default fallback model for simple queries''),
            body_performance =
              \<lparr>static = Some not_available, actualTimeToFirstToken = js ''150ms''\<rparr>,
            body_reply = js ''Hello from the model''\<rparr>\<close>
proof -
  let ?w = \<open>fresh (provider 100 (replies (Some (js ''{"model":"foo"}'')))
                           50 (replies (Some (js ''Hello from the model''))))\<close>
  let ?d = "\<lparr>model = JStr (js ''foo''),
             reasoning = JStr (js ''Default fallback model for simple queries'')\<rparr>"
  have up: "upstream ?w \<lparr>rq_model = model ?d, rq_content = js ''hello'', rq_json_only = False\<rparr>
              = (50, Resolved \<lparr>choices = [Some (js ''Hello from the model'')]\<rparr>)"
    by (simp add: world_eval)
  have ch: "choices \<lparr>choices = [Some (js ''Hello from the model'')]\<rparr>
              = Some (js ''Hello from the model'') # []" by simp
  have ms: "show_nat 150 @ js ''ms'' = js ''150ms''" by (simp add: show_nat_150 js_def)
  show ?thesis
    unfolding POST_body [OF route_sample_foo up ch]
    by (simp add: lookup_sample_foo) (simp add: world_eval ms)
qed

text \<open>
  A model that is an object with a member \<open>toString\<close> of its own: the completion call
  is issued and answered, and the lookup of the performance throws.
\<close>

lemma parse_sample_own_toString:
  \<open>JSON_parse (js ''{"model":{"toString":""}}'')
     = Some (JObj [(js ''model'', JObj [(js ''toString'', JStr [])])])\<close>
  by (simp add: parse_eval)

lemma route_sample_own_toString:
  \<open>fst (llmRouter (js ''hello'')
         (fresh (provider 100 (replies (Some (js ''{"model":{"toString":""}}'')))
                          50 (replies (Some (js ''Hello from the model''))))))
     = Inr \<lparr>model = JObj [(js ''toString'', JStr [])],
            reasoning = JStr (js ''Default fallback model for simple queries'')\<rparr>\<close>
  by (simp add: llmRouter_result world_eval parse_decision_def parse_sample_own_toString
        or_else_def)

lemma POST_sample_own_toString:
  \<open>fst (POST (js ''hello'')
         (fresh (provider 100 (replies (Some (js ''{"model":{"toString":""}}'')))
                          50 (replies (Some (js ''Hello from the model''))))))
     = Inl TypeError\<close>
proof -
  let ?w = \<open>fresh (provider 100 (replies (Some (js ''{"model":{"toString":""}}'')))
                           50 (replies (Some (js ''Hello from the model''))))\<close>
  let ?d = "\<lparr>model = JObj [(js ''toString'', JStr [])],
             reasoning = JStr (js ''Default fallback model for simple queries'')\<rparr>"
  have up: "upstream ?w \<lparr>rq_model = model ?d, rq_content = js ''hello'', rq_json_only = False\<rparr>
              = (50, Resolved \<lparr>choices = [Some (js ''Hello from the model'')]\<rparr>)"
    by (simp add: world_eval)
  have ch: "choices \<lparr>choices = [Some (js ''Hello from the model'')]\<rparr>
              = Some (js ''Hello from the model'') # []" by simp
  have "lookup_performance (JObj [(js ''toString'', JStr [])]) = Inl TypeError"
    by (simp add: lookup_performance_def)
  then show ?thesis
    unfolding POST_body [OF route_sample_own_toString up ch] by simp
qed

lemma no_artifacts_hello: "\<not> has_artifacts (js ''hello world'')"
  by (simp add: has_artifacts_def starts_with_def js_def)

lemma clean_sample_inner: "cleanModelResponse (js ''analysis hello world'') = js ''hello world''"
  by (simp add: cleanModelResponse_def cleaned_sample_inner) (simp add: js_def)

section \<open>The claims about the routing policy\<close>

text \<open>
  The routing policy returns a decision exactly when the classifier call resolves with a
  response of at least one choice, whatever the content of that choice is.
\<close>

lemma route_returns_iff_call_answers:
  "(\<exists>d. fst (llmRouter message w) = Inr d)
     \<longleftrightarrow> (\<exists>r. snd (upstream w (routing_request message)) = Resolved r \<and> choices r \<noteq> [])"
  by (auto simp: llmRouter_result split: outcome.splits list.splits sum.splits)

text \<open>
  C1. \<open>route\<close> never raises to its caller: for every behaviour of the classifier call,
  a network or HTTP failure of the call included, it returns a decision. The call is
  awaited outside the \<open>try\<close> block, so this fails when the call itself fails: with a
  provider that rejects the classifier call, \<open>llmRouter\<close> rejects with that failure and
  returns no decision.
\<close>

theorem route_rejects_when_call_fails:
  "snd (upstream (fresh (provider 30 Rejected 50 Rejected)) (routing_request (js ''hello'')))
     = Rejected
   \<and> fst (llmRouter (js ''hello'') (fresh (provider 30 Rejected 50 Rejected)))
       = Inl UpstreamFailure"
  by (simp add: llmRouter_result world_eval)

text \<open>
  With a first choice whose content is \<open>null\<close> or the empty string, the routing policy
  returns exactly the default model with the reasoning
  \<open>Default fallback model for simple queries\<close>.
\<close>

lemma route_no_content:
  assumes "snd (upstream w (routing_request message)) = Resolved r"
    and "choices r = c # cs"
    and "c = None \<or> c = Some []"
  shows "fst (llmRouter message w)
           = Inr \<lparr>model = JStr (js ''openai/gpt-oss-20b:free''),
                  reasoning = JStr (js ''Default fallback model for simple queries'')\<rparr>"
  using assms by (auto simp: llmRouter_result or_empty_def gpt_oss_def default_reasoning_def)

text \<open>
  C8. Whenever the classifier call succeeds but returns no content at all, the routing
  policy returns exactly the default model with the reasoning
  \<open>Default fallback model for simple queries\<close>. A response without any choice is a call
  that succeeded and returned no content; there \<open>response.choices[0].message\<close>, read
  before the test of the content and outside the \<open>try\<close> block, throws a TypeError, and
  \<open>llmRouter\<close> returns no decision.
\<close>

theorem route_no_choices_raises:
  "snd (upstream (fresh (provider 100 (Resolved \<lparr>choices = []\<rparr>) 50 Rejected))
          (routing_request (js ''hello'')))
     = Resolved \<lparr>choices = []\<rparr>
   \<and> fst (llmRouter (js ''hello'') (fresh (provider 100 (Resolved \<lparr>choices = []\<rparr>) 50 Rejected)))
       = Inl TypeError"
  by (simp add: llmRouter_result world_eval)

text \<open>
  C5, as stated: for a content that is not empty and is not valid JSON, or is valid JSON
  without the field \<open>model\<close>, the decision is the default model with the reasoning
  \<open>Error in model selection, using default fallback\<close>. The second half fails: \<open>{}\<close> is
  valid JSON without \<open>model\<close>, nothing is thrown, and the reasoning is the one of the
  default decision.
\<close>

theorem route_missing_model_counterexample:
  "JSON_parse (js ''{}'') = Some (JObj [])
   \<and> fst (llmRouter (js ''hello'') (fresh (provider 100 (replies (Some (js ''{}''))) 50 Rejected)))
       = Inr \<lparr>model = JStr (js ''openai/gpt-oss-20b:free''),
              reasoning = JStr (js ''Default fallback model for simple queries'')\<rparr>
   \<and> fst (llmRouter (js ''hello'') (fresh (provider 100 (replies (Some (js ''{}''))) 50 Rejected)))
       \<noteq> Inr \<lparr>model = JStr (js ''openai/gpt-oss-20b:free''),
              reasoning = JStr (js ''Error in model selection, using default fallback'')\<rparr>"
  by (simp add: route_sample_empty_object parse_sample_empty_object js_inject)

text \<open>
  C5, amended: for a content that is not empty, the decision is the default model with
  the reasoning \<open>Error in model selection, using default fallback\<close> when the content is
  not valid JSON (or is the JSON \<open>null\<close>); when it is valid JSON without the field
  \<open>model\<close>, the decision is the default model with the reasoning the classifier gave,
  and \<open>Default fallback model for simple queries\<close> if it gave none.
\<close>

theorem route_unusable_content:
  assumes "snd (upstream w (routing_request message)) = Resolved r"
    and "choices r = Some content # cs"
    and "content \<noteq> []"
  shows "(JSON_parse content = None \<or> JSON_parse content = Some JNull \<longrightarrow>
            fst (llmRouter message w)
              = Inr \<lparr>model = JStr (js ''openai/gpt-oss-20b:free''),
                     reasoning = JStr (js ''Error in model selection, using default fallback'')\<rparr>)
       \<and> (\<forall>v given. JSON_parse content = Some v
              \<and> get_prop v (js ''model'') = Inr None
              \<and> get_prop v (js ''reasoning'') = Inr given \<longrightarrow>
            fst (llmRouter message w)
              = Inr \<lparr>model = JStr (js ''openai/gpt-oss-20b:free''),
                     reasoning =
                       or_else given (JStr (js ''Default fallback model for simple queries''))\<rparr>)"
  using assms
  by (auto simp: llmRouter_result or_empty_def parse_decision_def or_else_def
        gpt_oss_def default_reasoning_def error_reasoning_def)

theorem route_unusable_content_witness:
  "fst (llmRouter (js ''hello'')
         (fresh (provider 100 (replies (Some (js ''not json''))) 50 Rejected)))
     = Inr \<lparr>model = JStr (js ''openai/gpt-oss-20b:free''),
            reasoning = JStr (js ''Error in model selection, using default fallback'')\<rparr>
   \<and> fst (llmRouter (js ''hello'')
         (fresh (provider 100 (replies (Some (js ''{}''))) 50 Rejected)))
     = Inr \<lparr>model = JStr (js ''openai/gpt-oss-20b:free''),
            reasoning = JStr (js ''Default fallback model for simple queries'')\<rparr>"
proof -
  let ?w1 = "fresh (provider 100 (replies (Some (js ''not json''))) 50 Rejected)"
  let ?w2 = "fresh (provider 100 (replies (Some (js ''{}''))) 50 Rejected)"
  have a1: "snd (upstream ?w1 (routing_request (js ''hello'')))
              = Resolved \<lparr>choices = [Some (js ''not json'')]\<rparr>"
    by (simp add: world_eval)
  have b1: "choices \<lparr>choices = [Some (js ''not json'')]\<rparr> = Some (js ''not json'') # []"
    by simp
  have c1: "js ''not json'' \<noteq> []" by (simp add: js_eq_Nil)
  have a2: "snd (upstream ?w2 (routing_request (js ''hello'')))
              = Resolved \<lparr>choices = [Some (js ''{}'')]\<rparr>"
    by (simp add: world_eval)
  have b2: "choices \<lparr>choices = [Some (js ''{}'')]\<rparr> = Some (js ''{}'') # []" by simp
  have c2: "js ''{}'' \<noteq> []" by (simp add: js_eq_Nil)
  have m: "get_prop (JObj []) (js ''model'') = Inr None"
    and g: "get_prop (JObj []) (js ''reasoning'') = Inr None" by simp_all
  have 1: "fst (llmRouter (js ''hello'') ?w1)
             = Inr \<lparr>model = JStr (js ''openai/gpt-oss-20b:free''),
                    reasoning = JStr (js ''Error in model selection, using default fallback'')\<rparr>"
    using route_unusable_content [OF a1 b1 c1] parse_sample_not_json by blast
  have "fst (llmRouter (js ''hello'') ?w2)
          = Inr \<lparr>model = JStr (js ''openai/gpt-oss-20b:free''),
                 reasoning = or_else None (JStr (js ''Default fallback model for simple queries''))\<rparr>"
    using route_unusable_content [OF a2 b2 c2] parse_sample_empty_object m g by blast
  then have 2: "fst (llmRouter (js ''hello'') ?w2)
          = Inr \<lparr>model = JStr (js ''openai/gpt-oss-20b:free''),
                 reasoning = JStr (js ''Default fallback model for simple queries'')\<rparr>"
    by (simp add: or_else_def)
  show ?thesis using 1 2 by simp
qed

section \<open>The claims about the completion dispatcher\<close>

text \<open>
  C3, as stated: the model of the downstream completion call is a key of the model
  catalog, or the dispatcher substitutes a default before the call. It is neither when
  the classifier names a model outside the catalog: the call is issued with that name.
\<close>

theorem downstream_model_counterexample:
  \<open>issued (snd (POST (js ''hello'')
      (fresh (provider 100 (replies (Some (js ''{"model":"foo"}'')))
                       50 (replies (Some (js ''Hello from the model'')))))))
     = [routing_request (js ''hello''),
        \<lparr>rq_model = JStr (js ''foo''), rq_content = js ''hello'', rq_json_only = False\<rparr>]
   \<and> map_of modelPerformance (js ''foo'') = None\<close>
proof -
  have "map_of modelPerformance (js ''foo'') = None"
    by (simp add: modelPerformance_def js_inject)
  then show ?thesis
    unfolding POST_issued [OF route_sample_foo] by (simp add: fresh_def)
qed

text \<open>
  C3, amended: the model of the downstream completion call is always the model of the
  routing decision, as the routing policy returned it, whether or not it is a key of the
  model catalog; the handler issues the classifier call and then this one, and nothing
  is substituted.
\<close>

theorem downstream_model_is_routed_model:
  assumes "fst (llmRouter message w) = Inr d"
  shows "issued (snd (POST message w))
           = issued w @ [routing_request message,
                         \<lparr>rq_model = model d, rq_content = message, rq_json_only = False\<rparr>]"
  using assms by (rule POST_issued)

theorem downstream_model_is_routed_model_witness:
  \<open>issued (snd (POST (js ''hello'')
      (fresh (provider 100
                (replies (Some (js ''{"model":"openai/gpt-5-mini","reasoning":"Needs reasoning"}'')))
                50 (replies (Some (js ''analysis hello world'')))))))
     = [routing_request (js ''hello''),
        \<lparr>rq_model = JStr (js ''openai/gpt-5-mini''), rq_content = js ''hello'',
         rq_json_only = False\<rparr>]\<close>
  unfolding downstream_model_is_routed_model [OF route_sample_mini] by (simp add: fresh_def)

text \<open>
  C4, as stated: the start timestamp is taken immediately before the downstream
  completion call, so the reported duration covers that call only. It is taken before
  the routing call: with a classifier call of 100 ms and a completion call of 50 ms the
  handler reports \<open>150ms\<close>.
\<close>

theorem elapsed_counterexample:
  \<open>fst (POST (js ''hello'')
         (fresh (provider 100 (replies (Some (js ''{"model":"foo"}'')))
                          50 (replies (Some (js ''Hello from the model''))))))
     = Inr \<lparr>body_model = JStr (js ''foo''),
            body_reasoning = JStr (js ''Default fallback model for simple queries''),
            body_performance =
              \<lparr>static = Some not_available, actualTimeToFirstToken = js ''150ms''\<rparr>,
            body_reply = js ''Hello from the model''\<rparr>
   \<and> upstream (fresh (provider 100 (replies (Some (js ''{"model":"foo"}'')))
                               50 (replies (Some (js ''Hello from the model'')))))
        \<lparr>rq_model = JStr (js ''foo''), rq_content = js ''hello'', rq_json_only = False\<rparr>
       = (50, Resolved \<lparr>choices = [Some (js ''Hello from the model'')]\<rparr>)\<close>
  by (simp add: POST_sample_foo) (simp add: world_eval)

text \<open>
  C4, amended: the start timestamp is taken when the handler starts, before the routing
  call, and the end timestamp after the downstream completion call resolves; the reported
  duration is their difference and covers both the classifier call and the completion
  call.
\<close>

theorem elapsed_covers_both_calls:
  assumes "fst (POST message w) = Inr b"
  shows "actualTimeToFirstToken (body_performance b)
           = show_nat (fst (upstream w (routing_request message))
                       + fst (upstream w \<lparr>rq_model = body_model b, rq_content = message,
                                           rq_json_only = False\<rparr>)) @ js ''ms''"
proof -
  obtain d where d: "fst (llmRouter message w) = Inr d"
    using assms POST_routed_failure [of message w] by (cases "fst (llmRouter message w)") auto
  obtain w1 where r: "llmRouter message w = (Inr d, w1)"
    using d by (cases "llmRouter message w") simp
  have u: "upstream w1 = upstream w" using llmRouter_world(2) [of message w] r by simp
  let ?rq = "\<lparr>rq_model = model d, rq_content = message, rq_json_only = False\<rparr>"
  obtain latency result where up: "upstream w ?rq = (latency, result)"
    by (cases "upstream w ?rq")
  obtain response where res: "result = Resolved response"
    using assms up by (cases result) (simp_all add: POST_def r create_def logger_def Let_def u)
  obtain rawReply others where ch: "choices response = rawReply # others"
    using assms up res
    by (cases "choices response") (simp_all add: POST_def r create_def logger_def Let_def u)
  have "fst (POST message w) = Inr b" by (rule assms)
  then show ?thesis
    unfolding POST_body [OF d up [unfolded res] ch] using up by (auto split: sum.splits)
qed

theorem elapsed_covers_both_calls_witness:
  \<open>fst (POST (js ''hello'')
         (fresh (provider 100 (replies (Some (js ''{"model":"foo"}'')))
                          50 (replies (Some (js ''Hello from the model''))))))
     = Inr \<lparr>body_model = JStr (js ''foo''),
            body_reasoning = JStr (js ''Default fallback model for simple queries''),
            body_performance =
              \<lparr>static = Some not_available, actualTimeToFirstToken = js ''150ms''\<rparr>,
            body_reply = js ''Hello from the model''\<rparr>
   \<and> js ''150ms'' = show_nat (100 + 50) @ js ''ms''\<close>
proof -
  let ?w = \<open>fresh (provider 100 (replies (Some (js ''{"model":"foo"}'')))
                           50 (replies (Some (js ''Hello from the model''))))\<close>
  have "rq_json_only (routing_request (js ''hello''))" by (simp add: routing_request_def)
  then have 1: "fst (upstream ?w (routing_request (js ''hello''))) = 100"
    by (simp add: fresh_def provider_def)
  have 2: "fst (upstream ?w \<lparr>rq_model = JStr (js ''foo''), rq_content = js ''hello'',
                             rq_json_only = False\<rparr>) = 50"
    by (simp add: fresh_def provider_def)
  have "js ''150ms'' = show_nat (100 + 50) @ js ''ms''"
    using elapsed_covers_both_calls [OF POST_sample_foo]
    by (simp only: 1 2 body.simps performance.simps)
  then show ?thesis using POST_sample_foo by simp
qed

text \<open>
  C6. The sanitizer is applied to the downstream reply if and only if the selected model
  is \<open>openai/gpt-oss-20b:free\<close>: whenever the handler returns a body, its reply for
  that model is the sanitized reply (or the fallback candidate computed from it, when it
  still has artifacts and the candidate is longer than 10), and for every other model it
  is the raw reply, with the empty string for a \<open>null\<close> content.
\<close>

theorem sanitizer_only_for_gpt_oss:
  assumes "fst (llmRouter message w) = Inr d"
    and "snd (upstream w \<lparr>rq_model = model d, rq_content = message, rq_json_only = False\<rparr>)
           = Resolved response"
    and "choices response = rawReply # others"
    and "fst (POST message w) = Inr b"
  shows "body_reply b =
           (if model d = JStr (js ''openai/gpt-oss-20b:free'') then
              (let cleaned = cleanModelResponse (or_empty rawReply)
               in if has_artifacts cleaned \<and> 10 < length (fallback_candidate cleaned)
                  then fallback_candidate cleaned else cleaned)
            else or_empty rawReply)"
proof -
  let ?rq = "\<lparr>rq_model = model d, rq_content = message, rq_json_only = False\<rparr>"
  have up: "upstream w ?rq = (fst (upstream w ?rq), Resolved response)"
    using assms(2) by (cases "upstream w ?rq") simp
  show ?thesis
    using assms(4) unfolding POST_body [OF assms(1) up assms(3)]
    by (auto simp: gpt_oss_def split: sum.splits)
qed

theorem sanitizer_only_for_gpt_oss_witness:
  \<open>(\<exists>b. fst (POST (js ''hello'')
             (fresh (provider 100
                (replies (Some (js ''{"model":"openai/gpt-oss-20b:free","reasoning":"A simple greeting"}'')))
                50 (replies (Some (js ''analysis hello world'')))))) = Inr b
        \<and> body_reply b = js ''hello world'')
   \<and> (\<exists>b. fst (POST (js ''hello'')
             (fresh (provider 100
                (replies (Some (js ''{"model":"openai/gpt-5-mini","reasoning":"Needs reasoning"}'')))
                50 (replies (Some (js ''analysis hello world'')))))) = Inr b
        \<and> body_reply b = js ''analysis hello world'')\<close>
proof -
  let ?r = "\<lparr>choices = [Some (js ''analysis hello world'')]\<rparr>"
  let ?w1 = \<open>fresh (provider 100
                (replies (Some (js ''{"model":"openai/gpt-oss-20b:free","reasoning":"A simple greeting"}'')))
                50 (replies (Some (js ''analysis hello world''))))\<close>
  let ?w2 = \<open>fresh (provider 100
                (replies (Some (js ''{"model":"openai/gpt-5-mini","reasoning":"Needs reasoning"}'')))
                50 (replies (Some (js ''analysis hello world''))))\<close>
  have ch: "choices ?r = Some (js ''analysis hello world'') # []" by simp
  have u1: "snd (upstream ?w1
                   \<lparr>rq_model = model \<lparr>model = JStr (js ''openai/gpt-oss-20b:free''),
                                       reasoning = JStr (js ''A simple greeting'')\<rparr>,
                    rq_content = js ''hello'', rq_json_only = False\<rparr>) = Resolved ?r"
    by (simp add: world_eval)
  have u2: "snd (upstream ?w2
                   \<lparr>rq_model = model \<lparr>model = JStr (js ''openai/gpt-5-mini''),
                                       reasoning = JStr (js ''Needs reasoning'')\<rparr>,
                    rq_content = js ''hello'', rq_json_only = False\<rparr>) = Resolved ?r"
    by (simp add: world_eval)
  have k1: "lookup_performance
              (model \<lparr>model = JStr (js ''openai/gpt-oss-20b:free''),
                      reasoning = JStr (js ''A simple greeting'')\<rparr>)
              = Inr (lookup_key (js ''openai/gpt-oss-20b:free''))"
    by (simp add: lookup_performance_string)
  have k2: "lookup_performance
              (model \<lparr>model = JStr (js ''openai/gpt-5-mini''),
                      reasoning = JStr (js ''Needs reasoning'')\<rparr>)
              = Inr (lookup_key (js ''openai/gpt-5-mini''))"
    by (simp add: lookup_performance_string)
  obtain b1 where b1: "fst (POST (js ''hello'') ?w1) = Inr b1"
    using POST_returns [OF route_sample_gpt_oss u1 ch k1] by blast
  obtain b2 where b2: "fst (POST (js ''hello'') ?w2) = Inr b2"
    using POST_returns [OF route_sample_mini u2 ch k2] by blast
  have 1: "body_reply b1 = js ''hello world''"
    using sanitizer_only_for_gpt_oss [OF route_sample_gpt_oss u1 ch b1]
    by (simp add: or_empty_def clean_sample_inner no_artifacts_hello)
  have 2: "body_reply b2 = js ''analysis hello world''"
    using sanitizer_only_for_gpt_oss [OF route_sample_mini u2 ch b2]
    by (simp add: or_empty_def js_inject)
  show ?thesis using b1 b2 1 2 by blast
qed

end
